theory Spec2Isabelle
  imports Complex_Main "HOL-Library.Word" "HOL-Library.AList"
begin

section \<open>Numbers and values of the host language\<close>

text \<open>
  A number of \<^verbatim>\<open>bot.js\<close> is an IEEE 754 double. A finite double is written as the
  rational it denotes; the two zeros are one value, since the program neither divides by a
  computed number nor stores the sign of a zero. The three special values are kept:
  \<^verbatim>\<open>JSON.parse\<close> yields \<^verbatim>\<open>Infinity\<close> for a literal such as \<^verbatim>\<open>1e999\<close>, the code tests
  \<^verbatim>\<open>isNaN\<close>, and a finite product or sum can leave the range.
\<close>

datatype jsnum = Fin rat | PInf | NInf | NaN

text \<open>
  Rounding to the nearest double, ties to the even significand. \<open>bit_length n\<close> is the
  number of binary digits of \<open>n\<close>, so \<open>floor_log2 x\<close> is the exponent \<open>e\<close> with
  \<open>2 ^ e \<le> x < 2 ^ (e + 1)\<close> for a positive \<open>x\<close>. A double has 53 significant bits and
  an exponent of at least -1022: the doubles around \<open>x\<close> are the multiples of
  \<open>2 ^ (e - 52)\<close>, and below \<open>2 ^ -1022\<close> those of \<open>2 ^ -1074\<close>. A result that rounds to
  \<open>2 ^ 1024\<close> or more is an infinity. This is how the decimal literals of the source are
  read and how \<^verbatim>\<open>+\<close>, \<^verbatim>\<open>-\<close>, \<^verbatim>\<open>*\<close> and \<^verbatim>\<open>/\<close> round their exact result.
\<close>

function bit_length :: "int \<Rightarrow> nat" where
  "bit_length n = (if n \<le> 0 then 0 else Suc (bit_length (n div 2)))"
  by pat_completeness auto
termination
  by (relation "measure nat") auto

declare bit_length.simps [simp del]

definition floor_log2 :: "rat \<Rightarrow> int" where
  "floor_log2 x =
     (if 1 \<le> x then int (bit_length \<lfloor>x\<rfloor>) - 1
      else - int (bit_length (\<lceil>1 / x\<rceil> - 1)))"

definition round_half_even :: "rat \<Rightarrow> int" where
  "round_half_even x =
     (let f = \<lfloor>x\<rfloor>; d = x - of_int f
      in if d < 1 / 2 then f else if 1 / 2 < d then f + 1 else if even f then f else f + 1)"

definition overflow_threshold :: rat where
  "overflow_threshold = 2 ^ 1024"

lemma overflow_threshold_code [code]: "overflow_threshold = (2 ^ 32) ^ 32"
  by (simp add: overflow_threshold_def)

definition to_double :: "rat \<Rightarrow> jsnum" where
  "to_double x =
     (if x = 0 then Fin 0
      else let e = max (floor_log2 \<bar>x\<bar>) (- 1022);
               ulp = 2 powi (e - 52);
               r = of_int (round_half_even (\<bar>x\<bar> / ulp)) * ulp
           in if overflow_threshold \<le> r then (if 0 < x then PInf else NInf)
              else Fin (if 0 < x then r else - r))"

fun jneg :: "jsnum \<Rightarrow> jsnum" where
  "jneg (Fin r) = Fin (- r)"
| "jneg PInf = NInf"
| "jneg NInf = PInf"
| "jneg NaN = NaN"

fun jadd :: "jsnum \<Rightarrow> jsnum \<Rightarrow> jsnum" where
  "jadd (Fin a) (Fin b) = to_double (a + b)"
| "jadd NaN y = NaN"
| "jadd x NaN = NaN"
| "jadd PInf NInf = NaN"
| "jadd NInf PInf = NaN"
| "jadd PInf y = PInf"
| "jadd x PInf = PInf"
| "jadd NInf y = NInf"
| "jadd x NInf = NInf"

definition jsub :: "jsnum \<Rightarrow> jsnum \<Rightarrow> jsnum" where
  "jsub x y = jadd x (jneg y)"

fun jsgn :: "jsnum \<Rightarrow> int" where
  "jsgn (Fin r) = (if r < 0 then - 1 else if r = 0 then 0 else 1)"
| "jsgn PInf = 1"
| "jsgn NInf = - 1"
| "jsgn NaN = 0"

fun jmul :: "jsnum \<Rightarrow> jsnum \<Rightarrow> jsnum" where
  "jmul (Fin a) (Fin b) = to_double (a * b)"
| "jmul NaN y = NaN"
| "jmul x NaN = NaN"
| "jmul x y = (if jsgn x * jsgn y = 0 then NaN else if 0 < jsgn x * jsgn y then PInf else NInf)"

fun jabs :: "jsnum \<Rightarrow> jsnum" where
  "jabs (Fin r) = Fin \<bar>r\<bar>"
| "jabs PInf = PInf"
| "jabs NInf = PInf"
| "jabs NaN = NaN"

text \<open>The comparisons \<^verbatim>\<open><\<close> and \<^verbatim>\<open><=\<close>: false as soon as one side is NaN.\<close>

fun jlt :: "jsnum \<Rightarrow> jsnum \<Rightarrow> bool" where
  "jlt (Fin a) (Fin b) = (a < b)"
| "jlt NaN y = False"
| "jlt x NaN = False"
| "jlt PInf y = False"
| "jlt x NInf = False"
| "jlt x PInf = True"
| "jlt NInf y = True"

fun jle :: "jsnum \<Rightarrow> jsnum \<Rightarrow> bool" where
  "jle (Fin a) (Fin b) = (a \<le> b)"
| "jle NaN y = False"
| "jle x NaN = False"
| "jle NInf y = True"
| "jle x PInf = True"
| "jle PInf y = False"
| "jle x NInf = False"

text \<open>Truthiness of a number: every number but 0 and NaN.\<close>

definition truthy_num :: "jsnum \<Rightarrow> bool" where
  "truthy_num x = (x \<noteq> Fin 0 \<and> x \<noteq> NaN)"

text \<open>\<^verbatim>\<open>x || 0\<close> for an optional numeric field (None is \<^verbatim>\<open>undefined\<close>).\<close>

definition or_zero :: "jsnum option \<Rightarrow> jsnum" where
  "or_zero x = (case x of None \<Rightarrow> Fin 0 | Some v \<Rightarrow> (if truthy_num v then v else Fin 0))"

text \<open>A decoded JSON value, as far as \<^verbatim>\<open>typeof\<close> tells values apart.\<close>

datatype jsval = JUndefined | JNull | JBool bool | JNumber jsnum | JString string | JObject

section \<open>Configuration\<close>

text \<open>
  The mode switches are \<^verbatim>\<open>const\<close> declarations of the source; they are a parameter here,
  so that the branches of the other modes can be stated, and \<open>bot_config\<close> holds the
  values the source gives them.
\<close>

record config =
  enableSimulation :: bool
  useImpossibleOdds :: bool
  testBetEnabled :: bool

definition bot_config :: config where
  "bot_config = \<lparr>enableSimulation = True, useImpossibleOdds = True, testBetEnabled = True\<rparr>"

definition fixedBalance :: rat where "fixedBalance = 100"
definition simulationBalance :: rat where "simulationBalance = 100"
definition betPercentage :: rat where "betPercentage = 10"
definition maxMarketsPerSubscription :: nat where "maxMarketsPerSubscription = 10"
definition testBetOdds :: rat where "testBetOdds = 3 / 2"
definition testBetOddsTolerance :: rat where "testBetOddsTolerance = 1"

section \<open>Data model\<close>

type_synonym market_id = string
type_synonym selection_id = nat
type_synonym byte = "8 word"
type_synonym code_unit = "16 word"
type_synonym jsstring = "code_unit list"

record bet =
  bet_selectionId :: selection_id
  bet_size :: jsnum
  bet_price :: jsnum

text \<open>\<open>None\<close> in \<open>pA\<close>, \<open>pB\<close> is the \<^verbatim>\<open>null\<close> the record is created with.\<close>

record odds =
  pA :: "jsnum option"
  pB :: "jsnum option"

record set_score =
  homeScore :: "jsnum option"
  awayScore :: "jsnum option"
  completed :: bool

datatype market_status = UPCOMING | IN_PLAY | ENDED

record game =
  isOpen :: bool
  marketId :: market_id
  playerA :: string
  playerB :: string
  selectionIdA :: selection_id
  selectionIdB :: selection_id
  currentOdds :: odds
  sets :: "set_score list"
  hasFirstSetEnded :: bool
  eventId :: string
  status :: market_status
  bet :: "bet option"

text \<open>The records appended to the per-event files, in the order of the calls, without
  their timestamps; the first component of an entry is the event the file is named after.\<close>

datatype mode = Simulated | Live

datatype outcome = Win | Lose | NoBet

datatype log_record =
    BetPlaced mode market_id selection_id jsnum jsnum "string option" bool
  | BetEdited "string option" jsnum jsnum
  | OddsUpdate "jsnum option" "jsnum option"
  | MarketExcluded market_id
  | BetOutcome mode market_id selection_id outcome jsnum
  | MarketClosed outcome jsnum

text \<open>The messages written to the socket.\<close>

datatype out_msg =
    Authentication
  | MarketSubscription nat "market_id list"
  | OrderSubscription nat

text \<open>
  A call of the live branch of \<^verbatim>\<open>placeBet\<close> that is suspended at an \<^verbatim>\<open>await\<close>: at the
  request to \<^verbatim>\<open>placeOrders\<close>, or inside \<^verbatim>\<open>editBet\<close> at the request to \<^verbatim>\<open>replaceOrders\<close>.
  It holds the local variables the rest of the call reads.
\<close>

datatype suspended =
    AwaitPlace market_id selection_id jsnum jsnum jsnum string bool
  | AwaitEdit market_id "string option" jsnum jsnum bool

record state =
  gameHistoricalData :: "(market_id \<times> game) list"
  hasOpenBet :: bool
  orderIds :: "market_id \<rightharpoonup> string"
  simBalance :: jsnum
  multiplier :: jsnum
  ws :: bool
  isSubscribed :: bool
  isAuthenticated :: bool
  hasPlacedBet :: bool
  totalMarketsTracked :: nat
  totalSetsCompleted :: nat
  totalConditionsMet :: nat
  totalBetsPlaced :: nat
  testBetPlaced :: bool
  ndjson :: "(string \<times> log_record) list"
  outbox :: "out_msg list"
  suspended_calls :: "suspended list"
  buffer :: jsstring

text \<open>
  \<open>gameHistoricalData\<close> is the object of that name, as the list of its entries in the order
  \<^verbatim>\<open>Object.values\<close> enumerates them. \<open>orderIds\<close> maps a market to its order identifier; a
  key holding \<^verbatim>\<open>undefined\<close> reads like an absent key everywhere, so both are \<open>None\<close>.
  \<open>ws\<close> tells whether a socket handle is held, \<open>outbox\<close> is what was written to it.
\<close>

abbreviation lookup_game :: "market_id \<Rightarrow> state \<Rightarrow> game option" where
  "lookup_game mid s \<equiv> map_of (gameHistoricalData s) mid"

definition upd_game :: "market_id \<Rightarrow> (game \<Rightarrow> game) \<Rightarrow> state \<Rightarrow> state" where
  "upd_game mid f s = s\<lparr>gameHistoricalData := AList.map_entry mid f (gameHistoricalData s)\<rparr>"

text \<open>\<^verbatim>\<open>game.eventId || marketId\<close>: the empty string is falsy.\<close>

definition event_key :: "game \<Rightarrow> market_id \<Rightarrow> string" where
  "event_key g mid = (if eventId g = [] then mid else eventId g)"

definition appendToNdjson :: "string \<Rightarrow> log_record \<Rightarrow> state \<Rightarrow> state" where
  "appendToNdjson ev entry s = s\<lparr>ndjson := ndjson s @ [(ev, entry)]\<rparr>"

definition ws_write :: "out_msg \<Rightarrow> state \<Rightarrow> state" where
  "ws_write m s = s\<lparr>outbox := outbox s @ [m]\<rparr>"

declare upd_game_def [simp] appendToNdjson_def [simp] ws_write_def [simp]

section \<open>Subscription\<close>

text \<open>The \<^verbatim>\<open>for\<close> loop of \<^verbatim>\<open>subscribeToOpenMarkets\<close>: one message per slice of the
  identifiers, numbered from 1.\<close>

function subscription_loop :: "nat \<Rightarrow> market_id list \<Rightarrow> state \<Rightarrow> state" where
  "subscription_loop i openMarketIds s =
     (if i < length openMarketIds then
        subscription_loop (i + maxMarketsPerSubscription) openMarketIds
          (ws_write (MarketSubscription (1 + i div maxMarketsPerSubscription)
             (take maxMarketsPerSubscription (drop i openMarketIds))) s)
      else s)"
  by pat_completeness auto
termination
  by (relation "measure (\<lambda>(i, ids, s). length ids - i)")
     (auto simp: maxMarketsPerSubscription_def)

declare subscription_loop.simps [simp del]

definition openMarketIds_of :: "state \<Rightarrow> market_id list" where
  "openMarketIds_of s = map (\<lambda>kv. marketId (snd kv)) (filter (\<lambda>kv. isOpen (snd kv)) (gameHistoricalData s))"

definition subscribeToOpenMarkets :: "state \<Rightarrow> state" where
  "subscribeToOpenMarkets s =
     (if isSubscribed s then s
      else let openMarketIds = openMarketIds_of s in
        if \<not> ws s \<or> openMarketIds = [] then s
        else (ws_write (OrderSubscription 999) (subscription_loop 0 openMarketIds s))
               \<lparr>isSubscribed := True\<rparr>)"

section \<open>Placing and editing a bet\<close>

definition bet_size_for :: "config \<Rightarrow> state \<Rightarrow> jsnum" where
  "bet_size_for cfg s =
     (if enableSimulation cfg then
        jmul (jmul (to_double (betPercentage / 100)) (simBalance s)) (multiplier s)
      else if useImpossibleOdds cfg then Fin 2
      else jmul (jmul (to_double (betPercentage / 100)) (Fin fixedBalance)) (multiplier s))"

text \<open>The last two statements of the live branch of \<^verbatim>\<open>placeBet\<close>.\<close>

definition placeBet_tail :: "bool \<Rightarrow> state \<Rightarrow> state" where
  "placeBet_tail isTestBet s =
     (let s1 = s\<lparr>hasPlacedBet := True\<rparr> in if isTestBet then s1\<lparr>testBetPlaced := True\<rparr> else s1)"

text \<open>
  \<^verbatim>\<open>placeBet\<close> up to its first \<^verbatim>\<open>await\<close>. The simulated branch has none and runs to its
  end inside the caller's step. The live branch stops at the request to the gateway and
  leaves a suspended call. A market that is not in the store makes the read of its
  \<^verbatim>\<open>eventId\<close> throw, which rejects the promise and changes nothing.
\<close>

definition placeBet :: "config \<Rightarrow> market_id \<Rightarrow> selection_id \<Rightarrow> jsnum \<Rightarrow> bool \<Rightarrow> state \<Rightarrow> state" where
  "placeBet cfg mid selectionId price isTestBet s =
     (let betSize = bet_size_for cfg s in
      case lookup_game mid s of
        None \<Rightarrow> s
      | Some g \<Rightarrow>
          let ev = event_key g mid in
          if enableSimulation cfg then
            let s1 = s\<lparr>orderIds := (orderIds s)(mid \<mapsto> ''sim_'' @ mid),
                       simBalance := jsub (simBalance s) betSize\<rparr>;
                s2 = upd_game mid (\<lambda>g. g\<lparr>bet := Some \<lparr>bet_selectionId = selectionId,
                       bet_size = betSize, bet_price = price\<rparr>\<rparr>) s1;
                s3 = appendToNdjson ev
                       (BetPlaced Simulated mid selectionId betSize price None isTestBet) s2;
                s4 = s3\<lparr>hasPlacedBet := True, hasOpenBet := True\<rparr>
            in if isTestBet then s4\<lparr>testBetPlaced := True\<rparr> else s4
          else
            let betPrice = (if useImpossibleOdds cfg then Fin 1000 else price) in
            s\<lparr>suspended_calls := suspended_calls s @
                 [AwaitPlace mid selectionId price betSize betPrice ev isTestBet]\<rparr>)"

text \<open>The answer of the gateway to \<^verbatim>\<open>placeOrders\<close>: a failure (a status that is not ok,
  or a body without instruction reports), or the \<^verbatim>\<open>betId\<close> of the first report, which may
  be missing. The answer to \<^verbatim>\<open>replaceOrders\<close> is ok or not.\<close>

datatype gateway_reply = PlaceFailed | PlaceOk "string option" | EditReply bool

text \<open>
  The rest of a suspended call once the gateway has answered. Writes to a market that
  has left the store throw; the \<^verbatim>\<open>catch\<close> around them logs to the console, and what was
  assigned before stays.
\<close>

fun resume :: "config \<Rightarrow> suspended \<Rightarrow> gateway_reply \<Rightarrow> state \<Rightarrow> state" where
  "resume cfg (AwaitPlace mid selectionId price betSize betPrice ev isTestBet) (PlaceOk betId) s =
     (let s1 = s\<lparr>orderIds := (orderIds s)(mid := betId)\<rparr> in
      case lookup_game mid s1 of
        None \<Rightarrow> s1
      | Some g \<Rightarrow>
          let s2 = upd_game mid (\<lambda>g. g\<lparr>bet := Some \<lparr>bet_selectionId = selectionId,
                     bet_size = betSize, bet_price = betPrice\<rparr>\<rparr>) s1;
              s3 = appendToNdjson ev
                     (BetPlaced Live mid selectionId betSize betPrice betId isTestBet) s2
          in if useImpossibleOdds cfg then
               (if \<not> enableSimulation cfg then
                  s3\<lparr>suspended_calls := suspended_calls s3 @
                       [AwaitEdit mid betId (to_double (1 / 20)) price isTestBet]\<rparr>
                else placeBet_tail isTestBet s3)
             else placeBet_tail isTestBet (s3\<lparr>hasOpenBet := True\<rparr>))"
| "resume cfg (AwaitPlace mid selectionId price betSize betPrice ev isTestBet) PlaceFailed s = s"
| "resume cfg (AwaitEdit mid betId newSize price isTestBet) (EditReply ok) s =
     placeBet_tail isTestBet
       (if ok then
          (case lookup_game mid s of
             None \<Rightarrow> s
           | Some g \<Rightarrow>
               (case bet g of
                  None \<Rightarrow> s
                | Some b \<Rightarrow>
                    (appendToNdjson (event_key g mid) (BetEdited betId newSize price)
                       (upd_game mid (\<lambda>g. g\<lparr>bet := Some (b\<lparr>bet_size := newSize,
                          bet_price := price\<rparr>)\<rparr>) s))\<lparr>hasOpenBet := True\<rparr>))
        else s)"
| "resume cfg c r s = s"

definition gateway_answers :: "config \<Rightarrow> nat \<Rightarrow> gateway_reply \<Rightarrow> state \<Rightarrow> state" where
  "gateway_answers cfg i r s =
     (if i < length (suspended_calls s) then
        resume cfg (suspended_calls s ! i) r
          (s\<lparr>suspended_calls := take i (suspended_calls s) @ drop (Suc i) (suspended_calls s)\<rparr>)
      else s)"

section \<open>Inbound messages\<close>

text \<open>
  The decoded messages, with the fields the handler reads; an optional field is an
  \<open>option\<close>. \<open>batb\<close> is the value of \<^verbatim>\<open>runner.batb?.[0]?.[0]\<close>, the best back price.
\<close>

record runner_change =
  rc_id :: selection_id
  batb :: jsval

record runner_def =
  rd_id :: selection_id
  rd_status :: string

record score =
  score_sets :: "set_score list option"

record market_definition =
  md_inPlay :: bool
  md_status :: "string option"
  md_score :: "score option"
  md_runners :: "runner_def list option"

record market_change =
  mc_id :: market_id
  marketDefinition :: "market_definition option"
  rc :: "runner_change list option"

record order_report =
  or_status :: "string option"
  or_profit :: "jsnum option"
  or_betId :: "string option"

record order_change =
  oc_marketId :: market_id
  oc_or :: "order_report list option"

datatype message =
    Status string
  | Mcm "market_change list option"
  | Ocm "order_change list option"
  | OtherMessage

section \<open>Market changes\<close>

text \<open>The body of \<^verbatim>\<open>mc.rc.forEach\<close>: one runner's best back price.\<close>

definition update_runner_odds :: "market_id \<Rightarrow> runner_change \<Rightarrow> state \<Rightarrow> state" where
  "update_runner_odds mid runner s =
     (case lookup_game mid s of
        None \<Rightarrow> s
      | Some g \<Rightarrow>
          (case batb runner of
             JNumber odds \<Rightarrow>
               if odds = NaN \<or> odds = Fin 0 then s
               else if jle odds (Fin 1) then s
               else if rc_id runner = selectionIdA g then
                 upd_game mid (\<lambda>g. g\<lparr>currentOdds := (currentOdds g)\<lparr>pA := Some odds\<rparr>\<rparr>) s
               else if rc_id runner = selectionIdB g then
                 upd_game mid (\<lambda>g. g\<lparr>currentOdds := (currentOdds g)\<lparr>pB := Some odds\<rparr>\<rparr>) s
               else s
           | _ \<Rightarrow> s))"

text \<open>\<^verbatim>\<open>odds && Math.abs(odds - testBetOdds) <= testBetOddsTolerance\<close>\<close>

definition near_test_odds :: "jsnum option \<Rightarrow> bool" where
  "near_test_odds x =
     (case x of
        None \<Rightarrow> False
      | Some v \<Rightarrow> truthy_num v \<and> jle (jabs (jsub v (Fin testBetOdds))) (Fin testBetOddsTolerance))"

definition test_bet_trigger :: "config \<Rightarrow> market_id \<Rightarrow> bool \<Rightarrow> state \<Rightarrow> state" where
  "test_bet_trigger cfg mid isInPlay s =
     (if testBetEnabled cfg \<and> isInPlay \<and> \<not> testBetPlaced s \<and> \<not> hasOpenBet s then
        (case lookup_game mid s of
           None \<Rightarrow> s
         | Some g \<Rightarrow>
             let oddsA = pA (currentOdds g); oddsB = pB (currentOdds g) in
             if near_test_odds oddsA then
               (case oddsA of Some v \<Rightarrow> placeBet cfg mid (selectionIdA g) v True s | None \<Rightarrow> s)
             else if near_test_odds oddsB then
               (case oddsB of Some v \<Rightarrow> placeBet cfg mid (selectionIdB g) v True s | None \<Rightarrow> s)
             else s)
      else s)"

text \<open>The price written to the \<^verbatim>\<open>odds_update\<close> record: the stored one if it is a number
  above 1, else \<^verbatim>\<open>null\<close>.\<close>

definition logged_odds :: "jsnum option \<Rightarrow> jsnum option" where
  "logged_odds x =
     (case x of None \<Rightarrow> None | Some v \<Rightarrow> (if v \<noteq> NaN \<and> jlt (Fin 1) v then Some v else None))"

definition odds_phase :: "config \<Rightarrow> market_change \<Rightarrow> market_id \<Rightarrow> bool \<Rightarrow> state \<Rightarrow> state" where
  "odds_phase cfg mc mid isInPlay s =
     (case rc mc of
        None \<Rightarrow> s
      | Some runners \<Rightarrow>
          if isInPlay then
            (let s1 = fold (update_runner_odds mid) runners s;
                 s2 = test_bet_trigger cfg mid isInPlay s1
             in case lookup_game mid s2 of
                  None \<Rightarrow> s2
                | Some g \<Rightarrow>
                    appendToNdjson (event_key g mid)
                      (OddsUpdate (logged_odds (pA (currentOdds g)))
                         (logged_odds (pB (currentOdds g)))) s2)
          else s)"

text \<open>\<^verbatim>\<open>underdogOdds >= 2\<close>, where the odds may still be \<^verbatim>\<open>null\<close>.\<close>

definition at_least_two :: "jsnum option \<Rightarrow> bool" where
  "at_least_two x = (case x of None \<Rightarrow> False | Some v \<Rightarrow> jle (Fin 2) v)"

text \<open>The body of the test on the first set: the latch, the difference of the games,
  the odds of the side that has fewer games (the first side when they are level), and
  the call of \<^verbatim>\<open>placeBet\<close>.\<close>

definition first_set_ended :: "config \<Rightarrow> market_id \<Rightarrow> game \<Rightarrow> set_score \<Rightarrow> state \<Rightarrow> state" where
  "first_set_ended cfg mid g set1 s1 =
     (let s2 = (upd_game mid (\<lambda>g. g\<lparr>hasFirstSetEnded := True\<rparr>) s1)
                  \<lparr>totalSetsCompleted := totalSetsCompleted s1 + 1\<rparr>;
          home = or_zero (homeScore set1);
          away = or_zero (awayScore set1);
          difference = jabs (jsub home away);
          underdogOdds = (if jlt away home then pB (currentOdds g) else pA (currentOdds g))
      in if jle difference (Fin 2) \<and> at_least_two underdogOdds then
           (let s3 = s2\<lparr>totalConditionsMet := totalConditionsMet s2 + 1\<rparr>
            in if \<not> hasOpenBet s3 then
                 (case underdogOdds of
                    None \<Rightarrow> s3
                  | Some v \<Rightarrow>
                      (let s4 = placeBet cfg mid
                             (if jlt away home then selectionIdB g else selectionIdA g) v False s3
                       in s4\<lparr>totalBetsPlaced := totalBetsPlaced s4 + 1\<rparr>))
               else s3)
         else s2)"

definition score_phase :: "config \<Rightarrow> market_change \<Rightarrow> market_id \<Rightarrow> state \<Rightarrow> state" where
  "score_phase cfg mc mid s =
     (case marketDefinition mc of
        None \<Rightarrow> s
      | Some md \<Rightarrow>
          (case md_score md of
             None \<Rightarrow> s
           | Some sc \<Rightarrow>
               if testBetEnabled cfg then s
               else
                 let s1 = upd_game mid
                       (\<lambda>g. g\<lparr>sets := (case score_sets sc of None \<Rightarrow> [] | Some xs \<Rightarrow> xs)\<rparr>) s
                 in case lookup_game mid s1 of
                      None \<Rightarrow> s1
                    | Some g \<Rightarrow>
                        (case sets g of
                           [] \<Rightarrow> s1
                         | set1 # rest \<Rightarrow>
                             if \<not> hasFirstSetEnded g \<and> completed set1
                             then first_set_ended cfg mid g set1 s1
                             else s1)))"

text \<open>The settlement inside the \<^verbatim>\<open>CLOSED\<close> branch: the profit or loss, the outcome, and
  the state with the balance, the multiplier and the \<^verbatim>\<open>bet_outcome\<close> record.\<close>

definition settle_closed :: "config \<Rightarrow> market_definition \<Rightarrow> market_id \<Rightarrow> game \<Rightarrow> state \<Rightarrow> jsnum \<times> outcome \<times> state" where
  "settle_closed cfg md mid g s =
     (case bet g of
        None \<Rightarrow> (Fin 0, NoBet, s)
      | Some b \<Rightarrow>
          (case md_runners md of
             None \<Rightarrow> (Fin 0, NoBet, s)
           | Some runners \<Rightarrow>
               (case find (\<lambda>r. rd_status r = ''WINNER'') runners of
                  None \<Rightarrow> (Fin 0, NoBet, s)
                | Some winningRunner \<Rightarrow>
                    if rd_id winningRunner = bet_selectionId b then
                      (let pnl = jmul (jmul (jsub (bet_price b) (Fin 1)) (bet_size b)) (to_double (95 / 100));
                           s1 = (if enableSimulation cfg
                                 then s\<lparr>simBalance := jadd (simBalance s) (jadd pnl (bet_size b))\<rparr>
                                 else s);
                           s2 = s1\<lparr>multiplier := Fin 1\<rparr>
                       in (pnl, Win, appendToNdjson (event_key g mid)
                             (BetOutcome (if enableSimulation cfg then Simulated else Live)
                                mid (bet_selectionId b) Win pnl) s2))
                    else
                      (let pnl = jneg (bet_size b);
                           s1 = (if enableSimulation cfg
                                 then s\<lparr>simBalance := jsub (simBalance s) (bet_size b)\<rparr>
                                 else s);
                           s2 = s1\<lparr>multiplier := jmul (multiplier s1) (Fin 2)\<rparr>
                       in (pnl, Lose, appendToNdjson (event_key g mid)
                             (BetOutcome (if enableSimulation cfg then Simulated else Live)
                                mid (bet_selectionId b) Lose pnl) s2)))))"

definition status_phase :: "config \<Rightarrow> market_change \<Rightarrow> market_id \<Rightarrow> state \<Rightarrow> state" where
  "status_phase cfg mc mid s =
     (case marketDefinition mc of
        None \<Rightarrow> upd_game mid (\<lambda>g. g\<lparr>status := UPCOMING\<rparr>) s
      | Some md \<Rightarrow>
          if md_status md = Some ''CLOSED'' then
            (let s1 = upd_game mid (\<lambda>g. g\<lparr>isOpen := False, status := ENDED\<rparr>) s
             in case lookup_game mid s1 of
                  None \<Rightarrow> s1
                | Some g \<Rightarrow>
                    (case settle_closed cfg md mid g s1 of
                       (pnl, outcome, s2) \<Rightarrow>
                         (let s3 = appendToNdjson (event_key g mid) (MarketClosed outcome pnl) s2
                          in s3\<lparr>orderIds := (orderIds s3)(mid := None),
                                gameHistoricalData := AList.delete mid (gameHistoricalData s3),
                                hasOpenBet := False,
                                testBetPlaced := False\<rparr>)))
          else if md_inPlay md then upd_game mid (\<lambda>g. g\<lparr>status := IN_PLAY\<rparr>) s
          else upd_game mid (\<lambda>g. g\<lparr>status := UPCOMING\<rparr>) s)"

text \<open>The body of \<^verbatim>\<open>message.mc.forEach\<close>.\<close>

definition handle_market_change :: "config \<Rightarrow> market_change \<Rightarrow> state \<Rightarrow> state" where
  "handle_market_change cfg mc s =
     (let mid = mc_id mc in
      case lookup_game mid s of
        None \<Rightarrow> s
      | Some g \<Rightarrow>
          if \<not> isOpen g then s
          else
            let isInPlay = (case marketDefinition mc of None \<Rightarrow> False | Some md \<Rightarrow> md_inPlay md);
                hasScore = (case marketDefinition mc of None \<Rightarrow> False | Some md \<Rightarrow> md_score md \<noteq> None)
            in if \<not> testBetEnabled cfg \<and> isInPlay \<and> \<not> hasScore then
                 appendToNdjson (event_key g mid) (MarketExcluded mid)
                   (upd_game mid (\<lambda>g. g\<lparr>isOpen := False\<rparr>) s)
               else status_phase cfg mc mid (score_phase cfg mc mid (odds_phase cfg mc mid isInPlay s)))"

section \<open>Order changes\<close>

text \<open>
  The body of \<^verbatim>\<open>oc.or.forEach\<close>. The second component tells that the step threw: the
  record of the outcome reads \<^verbatim>\<open>game.bet.selectionId\<close>, a TypeError when the market holds
  no bet; it ends the whole handler, and what was assigned before stays.
\<close>

definition settle_order :: "market_id \<Rightarrow> game \<Rightarrow> order_report \<Rightarrow> state \<Rightarrow> state \<times> bool" where
  "settle_order mid g ord s =
     (if or_status ord = Some ''EXECUTION_COMPLETE'' \<and> or_profit ord \<noteq> None
         \<and> or_betId ord = orderIds s mid then
        (case or_profit ord of
           None \<Rightarrow> (s, False)
         | Some profit \<Rightarrow>
             (case bet g of
                None \<Rightarrow> (s, True)
              | Some b \<Rightarrow>
                  (let outcome = (if jlt (Fin 0) profit then Win else Lose);
                       s1 = appendToNdjson (event_key g mid)
                              (BetOutcome Live mid (bet_selectionId b) outcome profit) s
                   in (s1\<lparr>multiplier := (if outcome = Win then Fin 1 else jmul (multiplier s1) (Fin 2)),
                           hasOpenBet := False,
                           testBetPlaced := False,
                           orderIds := (orderIds s1)(mid := None)\<rparr>, False))))
      else (s, False))"

fun settle_orders :: "market_id \<Rightarrow> game \<Rightarrow> order_report list \<Rightarrow> state \<Rightarrow> state \<times> bool" where
  "settle_orders mid g [] s = (s, False)"
| "settle_orders mid g (ord # ords) s =
     (case settle_order mid g ord s of
        (s1, True) \<Rightarrow> (s1, True)
      | (s1, False) \<Rightarrow> settle_orders mid g ords s1)"

text \<open>\<^verbatim>\<open>orderIds[marketId]\<close> as a condition: a non-empty string.\<close>

definition has_order :: "market_id \<Rightarrow> state \<Rightarrow> bool" where
  "has_order mid s = (case orderIds s mid of None \<Rightarrow> False | Some b \<Rightarrow> b \<noteq> [])"

definition handle_order_change :: "config \<Rightarrow> order_change \<Rightarrow> state \<Rightarrow> state \<times> bool" where
  "handle_order_change cfg oc s =
     (let mid = oc_marketId oc in
      case lookup_game mid s of
        None \<Rightarrow> (s, False)
      | Some g \<Rightarrow>
          if has_order mid s \<and> \<not> enableSimulation cfg then
            settle_orders mid g (case oc_or oc of None \<Rightarrow> [] | Some ords \<Rightarrow> ords) s
          else (s, False))"

fun handle_order_changes :: "config \<Rightarrow> order_change list \<Rightarrow> state \<Rightarrow> state \<times> bool" where
  "handle_order_changes cfg [] s = (s, False)"
| "handle_order_changes cfg (oc # ocs) s =
     (case handle_order_change cfg oc s of
        (s1, True) \<Rightarrow> (s1, True)
      | (s1, False) \<Rightarrow> handle_order_changes cfg ocs s1)"

section \<open>The message handler\<close>

text \<open>An exception of the handler is caught by its caller, which logs it to the console:
  the state reached when it was thrown is the state after the message.\<close>

definition handleStreamMessage :: "config \<Rightarrow> message \<Rightarrow> state \<Rightarrow> state" where
  "handleStreamMessage cfg m s =
     (case m of
        Status statusCode \<Rightarrow>
          if statusCode = ''SUCCESS'' then subscribeToOpenMarkets (s\<lparr>isAuthenticated := True\<rparr>)
          else s
      | Mcm mcs \<Rightarrow> fold (handle_market_change cfg) (case mcs of None \<Rightarrow> [] | Some l \<Rightarrow> l) s
      | Ocm ocs \<Rightarrow> fst (handle_order_changes cfg (case ocs of None \<Rightarrow> [] | Some l \<Rightarrow> l) s)
      | OtherMessage \<Rightarrow> s)"

section \<open>The connection\<close>

text \<open>
  \<^verbatim>\<open>data.toString()\<close> is a function of the runtime, not of this repository. It is
  modelled from the runtime's documentation: the bytes of the chunk are decoded as UTF-8,
  every ill-formed or truncated sequence becomes the replacement character U+FFFD, and the
  result is a string of UTF-16 code units. The decoder sees one chunk at a time.
\<close>

datatype utf8_start = Single nat | Multi nat nat nat nat | Invalid

definition utf8_lead :: "nat \<Rightarrow> utf8_start" where
  "utf8_lead b =
     (if b \<le> 0x7F then Single b
      else if 0xC2 \<le> b \<and> b \<le> 0xDF then Multi (b mod 32) 1 0x80 0xBF
      else if 0xE0 \<le> b \<and> b \<le> 0xEF then
        Multi (b mod 16) 2 (if b = 0xE0 then 0xA0 else 0x80) (if b = 0xED then 0x9F else 0xBF)
      else if 0xF0 \<le> b \<and> b \<le> 0xF4 then
        Multi (b mod 8) 3 (if b = 0xF0 then 0x90 else 0x80) (if b = 0xF4 then 0x8F else 0xBF)
      else Invalid)"

text \<open>The code points of a chunk. The first argument is the sequence under way: the
  bits read so far, the number of bytes still due, and the range allowed for the next.\<close>

fun utf8_points :: "(nat \<times> nat \<times> nat \<times> nat) option \<Rightarrow> nat list \<Rightarrow> nat list" where
  "utf8_points None [] = []"
| "utf8_points (Some st) [] = [0xFFFD]"
| "utf8_points None (b # bs) =
     (case utf8_lead b of
        Single c \<Rightarrow> c # utf8_points None bs
      | Multi c needed lo hi \<Rightarrow> utf8_points (Some (c, needed, lo, hi)) bs
      | Invalid \<Rightarrow> 0xFFFD # utf8_points None bs)"
| "utf8_points (Some (c, needed, lo, hi)) (b # bs) =
     (if lo \<le> b \<and> b \<le> hi then
        (if needed = 1 then (c * 64 + b mod 64) # utf8_points None bs
         else utf8_points (Some (c * 64 + b mod 64, needed - 1, 0x80, 0xBF)) bs)
      else 0xFFFD # utf8_points None (b # bs))"

definition utf16_units :: "nat \<Rightarrow> code_unit list" where
  "utf16_units c =
     (if c < 0x10000 then [of_nat c]
      else [of_nat (0xD800 + (c - 0x10000) div 0x400), of_nat (0xDC00 + (c - 0x10000) mod 0x400)])"

definition toString :: "byte list \<Rightarrow> jsstring" where
  "toString bytes = concat (map utf16_units (utf8_points None (map unat bytes)))"

text \<open>\<^verbatim>\<open>buffer.indexOf("\r\n")\<close>, with \<open>None\<close> for -1.\<close>

fun indexOf_crlf :: "jsstring \<Rightarrow> nat option" where
  "indexOf_crlf (a # b # cs) =
     (if a = 0x0D \<and> b = 0x0A then Some 0 else map_option Suc (indexOf_crlf (b # cs)))"
| "indexOf_crlf cs = None"

text \<open>
  \<^verbatim>\<open>JSON.parse\<close> and the reading of the decoded value as a message are a parameter of the
  model, \<open>parse\<close>; \<open>None\<close> is a text that makes \<^verbatim>\<open>JSON.parse\<close> throw, which is logged to
  the console and skipped.
\<close>

definition on_frame :: "(jsstring \<Rightarrow> message option) \<Rightarrow> config \<Rightarrow> jsstring \<Rightarrow> state \<Rightarrow> state" where
  "on_frame parse cfg text s =
     (case parse text of None \<Rightarrow> s | Some m \<Rightarrow> handleStreamMessage cfg m s)"

text \<open>The handler never assigns \<^verbatim>\<open>buffer\<close>; the loop of the data handler, which
  shortens it at every turn, therefore ends.\<close>

lemma buffer_subscription_loop [simp]: "buffer (subscription_loop i ids s) = buffer s"
proof (induction i ids s rule: subscription_loop.induct)
  case (1 i ids s)
  then show ?case
    by (subst subscription_loop.simps) simp
qed

lemma buffer_subscribeToOpenMarkets [simp]: "buffer (subscribeToOpenMarkets s) = buffer s"
  by (simp add: subscribeToOpenMarkets_def Let_def)


lemma buffer_placeBet [simp]: "buffer (placeBet cfg mid sel price t s) = buffer s"
  by (simp add: placeBet_def Let_def split: option.splits)

lemma buffer_update_runner_odds [simp]: "buffer (update_runner_odds mid r s) = buffer s"
  by (simp add: update_runner_odds_def split: option.splits jsval.splits)

lemma buffer_fold:
  assumes "\<And>x s. buffer (f x s) = buffer s"
  shows "buffer (fold f xs s) = buffer s"
  by (induction xs arbitrary: s) (simp_all add: assms)

lemma buffer_test_bet_trigger [simp]: "buffer (test_bet_trigger cfg mid p s) = buffer s"
  by (simp add: test_bet_trigger_def Let_def split: option.splits)

lemma buffer_odds_phase [simp]: "buffer (odds_phase cfg mc mid p s) = buffer s"
  by (simp add: odds_phase_def Let_def buffer_fold split: option.splits)

lemma buffer_first_set_ended [simp]: "buffer (first_set_ended cfg mid g set1 s) = buffer s"
  by (simp add: first_set_ended_def Let_def split: option.splits)

lemma buffer_score_phase [simp]: "buffer (score_phase cfg mc mid s) = buffer s"
  by (simp add: score_phase_def Let_def split: option.splits list.splits)

lemma buffer_settle_closed:
  "settle_closed cfg md mid g s = (pnl, oc, s') \<Longrightarrow> buffer s' = buffer s"
  by (auto simp: settle_closed_def Let_def split: option.splits if_splits)

lemma buffer_status_phase [simp]: "buffer (status_phase cfg mc mid s) = buffer s"
  by (auto simp: status_phase_def Let_def dest: buffer_settle_closed split: option.splits prod.splits)

lemma buffer_handle_market_change [simp]: "buffer (handle_market_change cfg mc s) = buffer s"
  by (simp add: handle_market_change_def Let_def split: option.splits)

lemma buffer_settle_order [simp]: "buffer (fst (settle_order mid g ord s)) = buffer s"
  by (simp add: settle_order_def Let_def split: option.splits)

lemma buffer_settle_orders [simp]: "buffer (fst (settle_orders mid g ords s)) = buffer s"
proof (induction ords arbitrary: s)
  case Nil
  show ?case by simp
next
  case (Cons ord ords)
  have "buffer (fst (settle_order mid g ord s)) = buffer s" by simp
  then show ?case
    by (cases "settle_order mid g ord s") (auto simp: Cons split: bool.splits)
qed

lemma buffer_handle_order_change [simp]: "buffer (fst (handle_order_change cfg oc s)) = buffer s"
  by (simp add: handle_order_change_def Let_def split: option.splits)

lemma buffer_handle_order_changes [simp]: "buffer (fst (handle_order_changes cfg ocs s)) = buffer s"
proof (induction ocs arbitrary: s)
  case Nil
  show ?case by simp
next
  case (Cons oc ocs)
  have "buffer (fst (handle_order_change cfg oc s)) = buffer s" by simp
  then show ?case
    by (cases "handle_order_change cfg oc s") (auto simp: Cons split: bool.splits)
qed

lemma buffer_handleStreamMessage [simp]: "buffer (handleStreamMessage cfg m s) = buffer s"
  by (simp add: handleStreamMessage_def buffer_fold split: message.splits)

lemma buffer_on_frame [simp]: "buffer (on_frame parse cfg t s) = buffer s"
  by (simp add: on_frame_def split: option.splits)

lemma indexOf_crlf_bound: "indexOf_crlf cs = Some i \<Longrightarrow> i + 2 \<le> length cs"
  by (induction cs arbitrary: i rule: indexOf_crlf.induct) (auto split: if_splits)

text \<open>The \<^verbatim>\<open>while (true)\<close> loop of the data handler.\<close>

function drain :: "(jsstring \<Rightarrow> message option) \<Rightarrow> config \<Rightarrow> state \<Rightarrow> state" where
  "drain parse cfg s =
     (case indexOf_crlf (buffer s) of
        None \<Rightarrow> s
      | Some index \<Rightarrow>
          drain parse cfg
            (on_frame parse cfg (take index (buffer s))
               (s\<lparr>buffer := drop (index + 2) (buffer s)\<rparr>)))"
  by pat_completeness auto
termination
  by (relation "measure (\<lambda>(parse, cfg, s). length (buffer s))")
     (auto dest: indexOf_crlf_bound)

declare drain.simps [simp del]

definition on_data :: "(jsstring \<Rightarrow> message option) \<Rightarrow> config \<Rightarrow> byte list \<Rightarrow> state \<Rightarrow> state" where
  "on_data parse cfg data s = drain parse cfg (s\<lparr>buffer := buffer s @ toString data\<rparr>)"

definition connectStreamAPI :: "state \<Rightarrow> state" where
  "connectStreamAPI s = s\<lparr>isSubscribed := False, isAuthenticated := False, ws := True\<rparr>"

definition on_connect :: "state \<Rightarrow> state" where
  "on_connect s = ws_write Authentication s"

definition on_error :: "state \<Rightarrow> state" where
  "on_error s = s\<lparr>isSubscribed := False\<rparr>"

definition on_close :: "state \<Rightarrow> state" where
  "on_close s = s\<lparr>isSubscribed := False\<rparr>"

section \<open>Start and run\<close>

record runner_summary =
  runnerName :: string
  rs_selectionId :: selection_id

text \<open>A market of the catalogue. \<open>ms_upcoming\<close> is the comparison of its start with the
  clock, which the model does not have.\<close>

record market_summary =
  ms_marketId :: market_id
  ms_runners :: "runner_summary list"
  ms_eventId :: "string option"
  ms_upcoming :: bool

definition initial_state :: state where
  "initial_state =
     \<lparr>gameHistoricalData = [], hasOpenBet = False, orderIds = Map.empty,
      simBalance = Fin simulationBalance, multiplier = Fin 1, ws = False, isSubscribed = False,
      isAuthenticated = False, hasPlacedBet = False, totalMarketsTracked = 0,
      totalSetsCompleted = 0, totalConditionsMet = 0, totalBetsPlaced = 0,
      testBetPlaced = False, ndjson = [], outbox = [], suspended_calls = [], buffer = []\<rparr>"

definition track_market :: "market_summary \<Rightarrow> state \<Rightarrow> state" where
  "track_market market s =
     (let mid = ms_marketId market in
      if lookup_game mid s = None \<and> 2 \<le> length (ms_runners market) then
        (case ms_runners market of
           a # b # rest \<Rightarrow>
             s\<lparr>gameHistoricalData := gameHistoricalData s @
                  [(mid, \<lparr>isOpen = True, marketId = mid,
                          playerA = (if runnerName a = [] then ''Player A'' else runnerName a),
                          playerB = (if runnerName b = [] then ''Player B'' else runnerName b),
                          selectionIdA = rs_selectionId a,
                          selectionIdB = rs_selectionId b,
                          currentOdds = \<lparr>pA = None, pB = None\<rparr>,
                          sets = [],
                          hasFirstSetEnded = False,
                          eventId = (case ms_eventId market of
                                       None \<Rightarrow> mid
                                     | Some e \<Rightarrow> (if e = [] then mid else e)),
                          status = (if ms_upcoming market then UPCOMING else IN_PLAY),
                          bet = None\<rparr>)],
               totalMarketsTracked := totalMarketsTracked s + 1\<rparr>
         | _ \<Rightarrow> s)
      else s)"

text \<open>\<^verbatim>\<open>runBot\<close> after the login, given the catalogue the gateway returned: with no market
  it returns, otherwise it tracks the markets and connects. A new market goes to the end
  of the store: the identifiers of the exchange have the form \<^verbatim>\<open>1.n\<close>, which is not an
  array index, so the object enumerates them in the order of insertion.\<close>

definition runBot :: "market_summary list \<Rightarrow> state" where
  "runBot initialMarkets =
     (if initialMarkets = [] then initial_state
      else connectStreamAPI (fold track_market initialMarkets initial_state))"

text \<open>What can happen next: a timer calls \<^verbatim>\<open>connectStreamAPI\<close> again, the socket reports
  that it is connected, delivers a chunk, fails or closes, or the gateway answers a
  suspended call.\<close>

datatype event =
    Reconnect
  | Connected
  | Data "byte list"
  | SocketError
  | SocketClosed
  | GatewayReply nat gateway_reply

fun step :: "(jsstring \<Rightarrow> message option) \<Rightarrow> config \<Rightarrow> event \<Rightarrow> state \<Rightarrow> state" where
  "step parse cfg Reconnect s = connectStreamAPI s"
| "step parse cfg Connected s = on_connect s"
| "step parse cfg (Data chunk) s = on_data parse cfg chunk s"
| "step parse cfg SocketError s = on_error s"
| "step parse cfg SocketClosed s = on_close s"
| "step parse cfg (GatewayReply i r) s = gateway_answers cfg i r s"

definition run :: "(jsstring \<Rightarrow> message option) \<Rightarrow> config \<Rightarrow> event list \<Rightarrow> state \<Rightarrow> state" where
  "run parse cfg events s = fold (step parse cfg) events s"

section \<open>Example inputs\<close>

text \<open>Three markets of two runners each, a delta that carries one runner's best back
  price for a market in play, and a delta that closes a market.\<close>

definition demo_market :: "market_id \<Rightarrow> selection_id \<Rightarrow> selection_id \<Rightarrow> market_summary" where
  "demo_market m a b =
     \<lparr>ms_marketId = m,
      ms_runners = [\<lparr>runnerName = ''A'', rs_selectionId = a\<rparr>, \<lparr>runnerName = ''B'', rs_selectionId = b\<rparr>],
      ms_eventId = None, ms_upcoming = False\<rparr>"

definition demo_markets :: "market_summary list" where
  "demo_markets = [demo_market ''1.1'' 11 12, demo_market ''1.2'' 21 22, demo_market ''1.3'' 31 32]"

definition odds_delta :: "market_id \<Rightarrow> selection_id \<Rightarrow> jsval \<Rightarrow> market_change" where
  "odds_delta m r v =
     \<lparr>mc_id = m,
      marketDefinition = Some \<lparr>md_inPlay = True, md_status = Some ''OPEN'', md_score = None,
                                md_runners = None\<rparr>,
      rc = Some [\<lparr>rc_id = r, batb = v\<rparr>]\<rparr>"

definition closed_delta :: "market_id \<Rightarrow> runner_def list option \<Rightarrow> market_change" where
  "closed_delta m rs =
     \<lparr>mc_id = m,
      marketDefinition = Some \<lparr>md_inPlay = False, md_status = Some ''CLOSED'', md_score = None,
                                md_runners = rs\<rparr>,
      rc = None\<rparr>"

text \<open>The state of the source's own configuration after a first price of 1.5 for the
  first runner of market 1.1: the test bet is on that market.\<close>

definition demo_bet_on_first :: state where
  "demo_bet_on_first =
     handleStreamMessage bot_config (Mcm (Some [odds_delta ''1.1'' 11 (JNumber (Fin (3 / 2)))]))
       (runBot demo_markets)"

definition demo_three_messages :: "message list" where
  "demo_three_messages =
     [Mcm (Some [odds_delta ''1.1'' 11 (JNumber (Fin (3 / 2)))]),
      Mcm (Some [closed_delta ''1.2'' None]),
      Mcm (Some [odds_delta ''1.3'' 31 (JNumber (Fin 2))])]"

definition demo_two_prices :: "message list" where
  "demo_two_prices =
     [Mcm (Some [odds_delta ''1.1'' 11 (JNumber (Fin (3 / 2)))]),
      Mcm (Some [odds_delta ''1.3'' 31 (JNumber (Fin 2))])]"

text \<open>The live configuration with the direct placement policy.\<close>

definition live_config :: config where
  "live_config = \<lparr>enableSimulation = False, useImpossibleOdds = False, testBetEnabled = True\<rparr>"

definition markets_with_bet :: "state \<Rightarrow> market_id list" where
  "markets_with_bet s = map fst (filter (\<lambda>kv. bet (snd kv) \<noteq> None) (gameHistoricalData s))"

text \<open>A reader of frames that takes one text for the message of a successful
  authentication and rejects every other text.\<close>

definition parse_only :: "jsstring \<Rightarrow> jsstring \<Rightarrow> message option" where
  "parse_only t0 t = (if t = t0 then Some (Status ''SUCCESS'') else None)"

section \<open>Frames\<close>

text \<open>The frames of a text: the pieces before each terminator, and what follows the last.\<close>

function frames_of :: "jsstring \<Rightarrow> jsstring list \<times> jsstring" where
  "frames_of t =
     (case indexOf_crlf t of
        None \<Rightarrow> ([], t)
      | Some i \<Rightarrow> (case frames_of (drop (i + 2) t) of (fs, r) \<Rightarrow> (take i t # fs, r)))"
  by pat_completeness auto
termination
  by (relation "measure length") (auto dest: indexOf_crlf_bound)

declare frames_of.simps [simp del]

definition framed :: "jsstring list \<Rightarrow> jsstring" where
  "framed frames = concat (map (\<lambda>f. f @ [0x0D, 0x0A]) frames)"




text \<open>The simulated configuration without test bets, a delta for a market in play that
  carries a score and one runner's price, and the state after the second runner of market
  1.1 was priced and its first set then ended with the given games.\<close>

definition sim_config :: config where
  "sim_config = \<lparr>enableSimulation = True, useImpossibleOdds = True, testBetEnabled = False\<rparr>"

definition score_delta :: "market_id \<Rightarrow> set_score list \<Rightarrow> runner_change list option \<Rightarrow> market_change" where
  "score_delta m ss rs =
     \<lparr>mc_id = m,
      marketDefinition = Some \<lparr>md_inPlay = True, md_status = Some ''OPEN'',
                                md_score = Some \<lparr>score_sets = Some ss\<rparr>, md_runners = None\<rparr>,
      rc = rs\<rparr>"

definition first_set :: "rat \<Rightarrow> rat \<Rightarrow> bool \<Rightarrow> set_score" where
  "first_set h a c = \<lparr>homeScore = Some (Fin h), awayScore = Some (Fin a), completed = c\<rparr>"

definition after_first_set :: "rat \<Rightarrow> rat \<Rightarrow> rat \<Rightarrow> state" where
  "after_first_set price h a =
     fold (handleStreamMessage sim_config)
       [Mcm (Some [score_delta ''1.1'' [first_set 0 0 False]
                     (Some [\<lparr>rc_id = 12, batb = JNumber (Fin price)\<rparr>])]),
        Mcm (Some [score_delta ''1.1'' [first_set h a True] None])]
       (runBot demo_markets)"

text \<open>A record of a settled bet, and the steps during which one was written.\<close>

definition is_outcome :: "string \<times> log_record \<Rightarrow> bool" where
  "is_outcome e = (case snd e of BetOutcome m k sel oc pnl \<Rightarrow> True | _ \<Rightarrow> False)"

definition settles :: "state \<Rightarrow> state \<Rightarrow> bool" where
  "settles s s' = list_ex is_outcome (drop (length (ndjson s)) (ndjson s'))"

text \<open>The values of a number that starts at 1 and is doubled: the powers of two up to
  the largest double that is one, \<open>2 ^ 1023\<close>, and \<^verbatim>\<open>Infinity\<close>.\<close>

definition doubling_value :: "jsnum \<Rightarrow> bool" where
  "doubling_value m = (m = PInf \<or> (\<exists>k\<le>1023. m = Fin (2 ^ k)))"

text \<open>A step that leaves the multiplier alone and only appends to the log, and a step
  that appends to the log, changes the multiplier only if it logs an outcome, and keeps
  it such a value.\<close>

definition quiet :: "state \<Rightarrow> state \<Rightarrow> bool" where
  "quiet s s' = (multiplier s' = multiplier s
     \<and> (\<exists>xs. ndjson s' = ndjson s @ xs \<and> \<not> list_ex is_outcome xs))"

definition mult_step :: "state \<Rightarrow> state \<Rightarrow> bool" where
  "mult_step s s' = ((\<exists>xs. ndjson s' = ndjson s @ xs
        \<and> (multiplier s' \<noteq> multiplier s \<longrightarrow> list_ex is_outcome xs))
     \<and> (doubling_value (multiplier s) \<longrightarrow> doubling_value (multiplier s')))"

text \<open>The live configuration after the gateway accepted, as bet \<open>b1\<close>, the test bet on
  market 1.1, and an order change that reports that bet complete with a given profit.\<close>

definition demo_live_bet :: state where
  "demo_live_bet =
     gateway_answers live_config 0 (PlaceOk (Some ''b1''))
       (handleStreamMessage live_config (Mcm (Some [odds_delta ''1.1'' 11 (JNumber (Fin (3 / 2)))]))
          (runBot demo_markets))"

definition order_complete :: "market_id \<Rightarrow> string \<Rightarrow> rat \<Rightarrow> order_change" where
  "order_complete m b profit =
     \<lparr>oc_marketId = m,
      oc_or = Some [\<lparr>or_status = Some ''EXECUTION_COMPLETE'', or_profit = Some (Fin profit),
                     or_betId = Some b\<rparr>]\<rparr>"

text \<open>An order change for market 1.1 that reports bet \<open>b1\<close> complete at a loss and
  then, \<open>n\<close> more times, an order without a \<^verbatim>\<open>betId\<close> complete at a loss. The first
  report deletes the order identifier of the market, so that each later report finds its
  missing \<^verbatim>\<open>betId\<close> equal to the missing identifier and is settled as well.\<close>

definition twice :: "jsnum \<Rightarrow> jsnum" where
  "twice m = jmul m (Fin 2)"

definition losing_reports :: "nat \<Rightarrow> order_change" where
  "losing_reports n =
     \<lparr>oc_marketId = ''1.1'',
      oc_or = Some (\<lparr>or_status = Some ''EXECUTION_COMPLETE'', or_profit = Some (Fin (- 10)),
                       or_betId = Some ''b1''\<rparr>
                    # replicate n \<lparr>or_status = Some ''EXECUTION_COMPLETE'',
                                    or_profit = Some (Fin (- 10)), or_betId = None\<rparr>)\<rparr>"

text \<open>A stored price that is unset or a number above 1, a market both of whose prices
  are so, and a store all of whose markets are so.\<close>

definition valid_odds :: "jsnum option \<Rightarrow> bool" where
  "valid_odds x = (case x of None \<Rightarrow> True | Some v \<Rightarrow> jlt (Fin 1) v)"

definition game_odds_ok :: "game \<Rightarrow> bool" where
  "game_odds_ok g = (valid_odds (pA (currentOdds g)) \<and> valid_odds (pB (currentOdds g)))"

definition store_ok :: "(market_id \<times> game) list \<Rightarrow> bool" where
  "store_ok gs = list_all (\<lambda>kv. game_odds_ok (snd kv)) gs"

definition odds_inv :: "state \<Rightarrow> bool" where
  "odds_inv s = store_ok (gameHistoricalData s)"

text \<open>
  The bets placed between two states, as market, selection and price: in simulation the
  \<^verbatim>\<open>bet_placed\<close> records appended to the log, in live mode the calls of \<^verbatim>\<open>placeBet\<close> that
  were left suspended at the request to the gateway.
\<close>

fun placed_of_record :: "string \<times> log_record \<Rightarrow> (market_id \<times> selection_id \<times> jsnum) list" where
  "placed_of_record (ev, BetPlaced md m sel sz price bid t) = [(m, sel, price)]"
| "placed_of_record (ev, r) = []"

fun placed_of_call :: "suspended \<Rightarrow> (market_id \<times> selection_id \<times> jsnum) list" where
  "placed_of_call (AwaitPlace m sel price sz bp ev t) = [(m, sel, price)]"
| "placed_of_call c = []"

definition placements :: "config \<Rightarrow> state \<Rightarrow> state \<Rightarrow> (market_id \<times> selection_id \<times> jsnum) list" where
  "placements cfg s s' =
     (if enableSimulation cfg
      then concat (map placed_of_record (drop (length (ndjson s)) (ndjson s')))
      else concat (map placed_of_call (drop (length (suspended_calls s)) (suspended_calls s'))))"

text \<open>A step that appends the given records and suspended calls.\<close>

definition stepped :: "state \<Rightarrow> state \<Rightarrow> (string \<times> log_record) list \<Rightarrow> suspended list \<Rightarrow> bool" where
  "stepped s s' ys zs = (ndjson s' = ndjson s @ ys \<and> suspended_calls s' = suspended_calls s @ zs)"

text \<open>A step that appends records to the log, none of them of a placed bet, and suspends
  no call.\<close>

definition adds_no_bet :: "state \<Rightarrow> state \<Rightarrow> bool" where
  "adds_no_bet s s' = (\<exists>ys. stepped s s' ys [] \<and> concat (map placed_of_record ys) = [])"

text \<open>Outside test mode: the state after the second runner of market 1.1 was priced, and
  the state in which market 1.1 holds the bet placed when its first set ended 6-4 at odds
  3, market 1.2 has closed since without a bet, and the second runner of market 1.3 was
  priced at 2.5.\<close>

definition demo_priced :: "rat \<Rightarrow> state" where
  "demo_priced price =
     handleStreamMessage sim_config
       (Mcm (Some [score_delta ''1.1'' [first_set 0 0 False]
                     (Some [\<lparr>rc_id = 12, batb = JNumber (Fin price)\<rparr>])]))
       (runBot demo_markets)"

definition demo_stale_flag :: state where
  "demo_stale_flag =
     fold (handleStreamMessage sim_config)
       [Mcm (Some [closed_delta ''1.2'' None]),
        Mcm (Some [score_delta ''1.3'' [first_set 0 0 False]
                     (Some [\<lparr>rc_id = 32, batb = JNumber (Fin (5 / 2))\<rparr>])])]
       (after_first_set 3 6 4)"

section \<open>Rounding\<close>

lemma to_double_zero [simp]: "to_double 0 = Fin 0"
  by (simp add: to_double_def)

lemma bit_length_power2: "bit_length (2 ^ n) = Suc n"
proof (induction n)
  case 0
  show ?case by (subst bit_length.simps, subst bit_length.simps) simp
next
  case (Suc n)
  show ?case by (subst bit_length.simps) (simp add: Suc)
qed

lemma floor_log2_power2: "floor_log2 (2 ^ n) = int n"
proof -
  have "\<lfloor>(2 :: rat) ^ n\<rfloor> = 2 ^ n"
    by (metis floor_of_int of_int_numeral of_int_power)
  then show ?thesis
    by (simp add: floor_log2_def bit_length_power2)
qed

lemma round_half_even_of_int: "round_half_even (of_int k) = k"
  by (simp add: round_half_even_def)

text \<open>A power of two is a double up to \<open>2 ^ 1023\<close>, and rounds to \<^verbatim>\<open>Infinity\<close> beyond.\<close>

lemma to_double_power2:
  "to_double (2 ^ n) = (if n \<le> 1023 then Fin (2 ^ n) else PInf)"
proof -
  let ?ulp = "(2 :: rat) powi (int n - 52)"
  have ulp: "?ulp = 2 ^ n / 2 ^ 52"
    by (simp add: power_int_diff)
  have q: "(2 :: rat) ^ n / ?ulp = of_int (2 ^ 52)"
    unfolding ulp by simp
  have r: "of_int (round_half_even ((2 :: rat) ^ n / ?ulp)) * ?ulp = 2 ^ n"
    unfolding q round_half_even_of_int unfolding ulp by simp
  have "(overflow_threshold \<le> 2 ^ n) = (1024 \<le> n)"
    unfolding overflow_threshold_def by (rule power_increasing_iff) simp
  then have over: "(overflow_threshold \<le> 2 ^ n) = (\<not> n \<le> 1023)"
    by auto
  show ?thesis
    using r over by (simp add: to_double_def floor_log2_power2 Let_def)
qed

lemma jmul_power2_two:
  "jmul (Fin (2 ^ k)) (Fin 2) = (if k < 1023 then Fin (2 ^ Suc k) else PInf)"
proof -
  have "jmul (Fin (2 ^ k)) (Fin 2) = to_double (2 ^ Suc k)"
    by (simp add: mult.commute)
  also have "\<dots> = (if Suc k \<le> 1023 then Fin (2 ^ Suc k) else PInf)"
    by (rule to_double_power2)
  finally show ?thesis
    by (simp add: less_eq_Suc_le)
qed

lemma doubling_value_one [simp]: "doubling_value (Fin 1)"
  unfolding doubling_value_def by (rule disjI2, rule exI [of _ 0]) simp

lemma doubling_value_double [simp]: "doubling_value m \<Longrightarrow> doubling_value (jmul m (Fin 2))"
proof -
  assume "doubling_value m"
  then consider "m = PInf" | k where "k \<le> 1023" and "m = Fin (2 ^ k)"
    by (auto simp: doubling_value_def)
  then show ?thesis
  proof cases
    case 1
    then show ?thesis by (simp add: doubling_value_def)
  next
    case 2
    show ?thesis
    proof (cases "k < 1023")
      case True
      then have "jmul m (Fin 2) = Fin (2 ^ Suc k)" and "Suc k \<le> 1023"
        unfolding 2(2) jmul_power2_two by simp_all
      then show ?thesis unfolding doubling_value_def by blast
    next
      case False
      then have "jmul m (Fin 2) = PInf"
        unfolding 2(2) jmul_power2_two by simp
      then show ?thesis by (simp add: doubling_value_def)
    qed
  qed
qed

section \<open>The store under the phases of a market change\<close>

lemma lookup_game_keys: "lookup_game k s \<noteq> None \<longleftrightarrow> k \<in> set (map fst (gameHistoricalData s))"
  by (simp add: map_of_eq_None_iff)

lemma map_fst_map_entry [simp]: "map fst (AList.map_entry k f xs) = map fst xs"
  by (induction xs) auto

lemma map_of_map_entry_other [simp]:
  "k \<noteq> mid \<Longrightarrow> map_of (AList.map_entry mid f xs) k = map_of xs k"
  by (simp add: map_of_map_entry)

lemma map_of_map_entry_same [simp]:
  "map_of (AList.map_entry mid f xs) mid = map_option f (map_of xs mid)"
  by (simp add: map_of_map_entry split: option.splits)

lemma keys_placeBet [simp]:
  "map fst (gameHistoricalData (placeBet cfg mid sel price t s)) = map fst (gameHistoricalData s)"
  by (simp add: placeBet_def Let_def split: option.splits)

lemma other_placeBet [simp]:
  "k \<noteq> mid \<Longrightarrow> lookup_game k (placeBet cfg mid sel price t s) = lookup_game k s"
  by (simp add: placeBet_def Let_def split: option.splits)

lemma keys_update_runner_odds [simp]:
  "map fst (gameHistoricalData (update_runner_odds mid r s)) = map fst (gameHistoricalData s)"
  by (simp add: update_runner_odds_def split: option.splits jsval.splits)

lemma other_update_runner_odds [simp]:
  "k \<noteq> mid \<Longrightarrow> lookup_game k (update_runner_odds mid r s) = lookup_game k s"
  by (simp add: update_runner_odds_def split: option.splits jsval.splits)

lemma keys_fold_update_runner_odds [simp]:
  "map fst (gameHistoricalData (fold (update_runner_odds mid) rs s)) = map fst (gameHistoricalData s)"
  by (induction rs arbitrary: s) simp_all

lemma other_fold_update_runner_odds [simp]:
  "k \<noteq> mid \<Longrightarrow> lookup_game k (fold (update_runner_odds mid) rs s) = lookup_game k s"
  by (induction rs arbitrary: s) simp_all

lemma keys_test_bet_trigger [simp]:
  "map fst (gameHistoricalData (test_bet_trigger cfg mid p s)) = map fst (gameHistoricalData s)"
  by (simp add: test_bet_trigger_def Let_def split: option.splits)

lemma other_test_bet_trigger [simp]:
  "k \<noteq> mid \<Longrightarrow> lookup_game k (test_bet_trigger cfg mid p s) = lookup_game k s"
  by (simp add: test_bet_trigger_def Let_def split: option.splits)

lemma keys_odds_phase [simp]:
  "map fst (gameHistoricalData (odds_phase cfg mc mid p s)) = map fst (gameHistoricalData s)"
  by (simp add: odds_phase_def Let_def split: option.splits)

lemma other_odds_phase [simp]:
  "k \<noteq> mid \<Longrightarrow> lookup_game k (odds_phase cfg mc mid p s) = lookup_game k s"
  by (simp add: odds_phase_def Let_def split: option.splits)

lemma keys_first_set_ended [simp]:
  "map fst (gameHistoricalData (first_set_ended cfg mid g set1 s)) = map fst (gameHistoricalData s)"
  by (simp add: first_set_ended_def Let_def split: option.splits)

lemma other_first_set_ended [simp]:
  "k \<noteq> mid \<Longrightarrow> lookup_game k (first_set_ended cfg mid g set1 s) = lookup_game k s"
  by (simp add: first_set_ended_def Let_def split: option.splits)

lemma keys_score_phase [simp]:
  "map fst (gameHistoricalData (score_phase cfg mc mid s)) = map fst (gameHistoricalData s)"
  by (simp add: score_phase_def Let_def split: option.splits list.splits)

lemma other_score_phase [simp]:
  "k \<noteq> mid \<Longrightarrow> lookup_game k (score_phase cfg mc mid s) = lookup_game k s"
  by (simp add: score_phase_def Let_def split: option.splits list.splits)


lemma map_of_delete_other [simp]: "k \<noteq> mid \<Longrightarrow> map_of (AList.delete mid xs) k = map_of xs k"
  by (simp add: delete_conv')

lemma store_settle_closed:
  "settle_closed cfg md mid g s = (pnl, oc, s') \<Longrightarrow> gameHistoricalData s' = gameHistoricalData s"
  by (auto simp: settle_closed_def Let_def split: option.splits if_splits)

lemma status_phase_closed_flags:
  assumes "lookup_game mid s = Some g" and "marketDefinition mc = Some md"
    and "md_status md = Some ''CLOSED''"
  shows "\<not> hasOpenBet (status_phase cfg mc mid s) \<and> \<not> testBetPlaced (status_phase cfg mc mid s)"
  using assms by (simp add: status_phase_def Let_def split: prod.splits)

lemma other_status_phase [simp]:
  "k \<noteq> mid \<Longrightarrow> lookup_game k (status_phase cfg mc mid s) = lookup_game k s"
  by (auto simp: status_phase_def Let_def dest: store_settle_closed split: option.splits prod.splits)

lemma tracked_after_phases:
  assumes "lookup_game mid s = Some g"
  shows "\<exists>g'. lookup_game mid (score_phase cfg mc mid (odds_phase cfg mc mid p s)) = Some g'"
proof -
  have "mid \<in> set (map fst (gameHistoricalData s))"
    using assms lookup_game_keys [where k = mid and s = s] by simp
  then have "mid \<in> set (map fst (gameHistoricalData (score_phase cfg mc mid (odds_phase cfg mc mid p s))))"
    by simp
  then have "lookup_game mid (score_phase cfg mc mid (odds_phase cfg mc mid p s)) \<noteq> None"
    using lookup_game_keys by blast
  then show ?thesis by blast
qed

section \<open>Closing a market clears the flags\<close>

text \<open>
  C10. A delta with status \<^verbatim>\<open>CLOSED\<close> for a tracked, open market that reaches the status
  branch (in test mode every delta does; otherwise a delta in play without a score is
  excluded before) leaves \<open>hasOpenBet\<close> and \<open>testBetPlaced\<close> false, whether or not the
  market held a bet, and leaves every other market of the store as it was, with its bet.
\<close>

theorem closed_delta_clears_flags:
  assumes "lookup_game (mc_id mc) s = Some g" and "isOpen g"
    and "marketDefinition mc = Some md" and "md_status md = Some ''CLOSED''"
    and "testBetEnabled cfg \<or> \<not> md_inPlay md \<or> md_score md \<noteq> None"
  shows "\<not> hasOpenBet (handle_market_change cfg mc s)
       \<and> \<not> testBetPlaced (handle_market_change cfg mc s)
       \<and> (\<forall>k. k \<noteq> mc_id mc \<longrightarrow>
            lookup_game k (handle_market_change cfg mc s) = lookup_game k s)"
proof -
  let ?mid = "mc_id mc"
  let ?s1 = "score_phase cfg mc ?mid (odds_phase cfg mc ?mid (md_inPlay md) s)"
  have eq: "handle_market_change cfg mc s = status_phase cfg mc ?mid ?s1"
    using assms by (auto simp: handle_market_change_def Let_def)
  obtain g' where g': "lookup_game ?mid ?s1 = Some g'"
    using tracked_after_phases [OF assms(1)] by blast
  have flags: "\<not> hasOpenBet (status_phase cfg mc ?mid ?s1) \<and> \<not> testBetPlaced (status_phase cfg mc ?mid ?s1)"
    by (rule status_phase_closed_flags [OF g' assms(3) assms(4)])
  have others: "\<forall>k. k \<noteq> ?mid \<longrightarrow> lookup_game k (status_phase cfg mc ?mid ?s1) = lookup_game k s"
    by simp
  show ?thesis
    unfolding eq using flags others by blast
qed


theorem closed_delta_clears_flags_witness:
  "hasOpenBet demo_bet_on_first
   \<and> map_option bet (lookup_game ''1.1'' demo_bet_on_first)
       = Some (Some \<lparr>bet_selectionId = 11, bet_size = Fin 10, bet_price = Fin (3 / 2)\<rparr>)
   \<and> map_option bet (lookup_game ''1.2'' demo_bet_on_first) = Some None
   \<and> \<not> hasOpenBet (handle_market_change bot_config (closed_delta ''1.2'' None) demo_bet_on_first)
   \<and> \<not> testBetPlaced (handle_market_change bot_config (closed_delta ''1.2'' None) demo_bet_on_first)
   \<and> map_option bet (lookup_game ''1.1''
        (handle_market_change bot_config (closed_delta ''1.2'' None) demo_bet_on_first))
       = Some (Some \<lparr>bet_selectionId = 11, bet_size = Fin 10, bet_price = Fin (3 / 2)\<rparr>)"
proof -
  let ?mc = "closed_delta ''1.2'' None"
  let ?g = "the (lookup_game ''1.2'' demo_bet_on_first)"
  let ?md = "\<lparr>md_inPlay = False, md_status = Some ''CLOSED'', md_score = None, md_runners = None\<rparr>"
  have a: "lookup_game (mc_id ?mc) demo_bet_on_first = Some ?g" by code_simp
  have b: "isOpen ?g" by code_simp
  have c: "marketDefinition ?mc = Some ?md" by (simp add: closed_delta_def)
  have d: "md_status ?md = Some ''CLOSED''" by simp
  have e: "testBetEnabled bot_config \<or> \<not> md_inPlay ?md \<or> md_score ?md \<noteq> None" by simp
  have f: "hasOpenBet demo_bet_on_first" by code_simp
  have g: "map_option bet (lookup_game ''1.1'' demo_bet_on_first)
       = Some (Some \<lparr>bet_selectionId = 11, bet_size = Fin 10, bet_price = Fin (3 / 2)\<rparr>)" by code_simp
  have h: "map_option bet (lookup_game ''1.2'' demo_bet_on_first) = Some None" by code_simp
  have k: "''1.1'' \<noteq> mc_id ?mc" by (simp add: closed_delta_def)
  show ?thesis
    using closed_delta_clears_flags [OF a b c d e] f g h k by simp
qed


section \<open>The handler does not read the buffer\<close>

lemma buffer_outward [simp]:
  "(s\<lparr>buffer := b\<rparr>)\<lparr>gameHistoricalData := x0\<rparr> = (s\<lparr>gameHistoricalData := x0\<rparr>)\<lparr>buffer := b\<rparr>"
  "(s\<lparr>buffer := b\<rparr>)\<lparr>hasOpenBet := x1\<rparr> = (s\<lparr>hasOpenBet := x1\<rparr>)\<lparr>buffer := b\<rparr>"
  "(s\<lparr>buffer := b\<rparr>)\<lparr>orderIds := x2\<rparr> = (s\<lparr>orderIds := x2\<rparr>)\<lparr>buffer := b\<rparr>"
  "(s\<lparr>buffer := b\<rparr>)\<lparr>simBalance := x3\<rparr> = (s\<lparr>simBalance := x3\<rparr>)\<lparr>buffer := b\<rparr>"
  "(s\<lparr>buffer := b\<rparr>)\<lparr>multiplier := x4\<rparr> = (s\<lparr>multiplier := x4\<rparr>)\<lparr>buffer := b\<rparr>"
  "(s\<lparr>buffer := b\<rparr>)\<lparr>ws := x5\<rparr> = (s\<lparr>ws := x5\<rparr>)\<lparr>buffer := b\<rparr>"
  "(s\<lparr>buffer := b\<rparr>)\<lparr>isSubscribed := x6\<rparr> = (s\<lparr>isSubscribed := x6\<rparr>)\<lparr>buffer := b\<rparr>"
  "(s\<lparr>buffer := b\<rparr>)\<lparr>isAuthenticated := x7\<rparr> = (s\<lparr>isAuthenticated := x7\<rparr>)\<lparr>buffer := b\<rparr>"
  "(s\<lparr>buffer := b\<rparr>)\<lparr>hasPlacedBet := x8\<rparr> = (s\<lparr>hasPlacedBet := x8\<rparr>)\<lparr>buffer := b\<rparr>"
  "(s\<lparr>buffer := b\<rparr>)\<lparr>totalMarketsTracked := x9\<rparr> = (s\<lparr>totalMarketsTracked := x9\<rparr>)\<lparr>buffer := b\<rparr>"
  "(s\<lparr>buffer := b\<rparr>)\<lparr>totalSetsCompleted := x10\<rparr> = (s\<lparr>totalSetsCompleted := x10\<rparr>)\<lparr>buffer := b\<rparr>"
  "(s\<lparr>buffer := b\<rparr>)\<lparr>totalConditionsMet := x11\<rparr> = (s\<lparr>totalConditionsMet := x11\<rparr>)\<lparr>buffer := b\<rparr>"
  "(s\<lparr>buffer := b\<rparr>)\<lparr>totalBetsPlaced := x12\<rparr> = (s\<lparr>totalBetsPlaced := x12\<rparr>)\<lparr>buffer := b\<rparr>"
  "(s\<lparr>buffer := b\<rparr>)\<lparr>testBetPlaced := x13\<rparr> = (s\<lparr>testBetPlaced := x13\<rparr>)\<lparr>buffer := b\<rparr>"
  "(s\<lparr>buffer := b\<rparr>)\<lparr>ndjson := x14\<rparr> = (s\<lparr>ndjson := x14\<rparr>)\<lparr>buffer := b\<rparr>"
  "(s\<lparr>buffer := b\<rparr>)\<lparr>outbox := x15\<rparr> = (s\<lparr>outbox := x15\<rparr>)\<lparr>buffer := b\<rparr>"
  "(s\<lparr>buffer := b\<rparr>)\<lparr>suspended_calls := x16\<rparr> = (s\<lparr>suspended_calls := x16\<rparr>)\<lparr>buffer := b\<rparr>"
  by simp_all

lemma setbuf_subscription_loop:
  "subscription_loop i ids (s\<lparr>buffer := b\<rparr>) = (subscription_loop i ids s)\<lparr>buffer := b\<rparr>"
proof (induction i ids s rule: subscription_loop.induct)
  case (1 i ids s)
  show ?case
  proof (cases "i < length ids")
    case True
    then show ?thesis
      using 1 by (subst subscription_loop.simps, subst (2) subscription_loop.simps) simp
  next
    case False
    then show ?thesis
      by (subst subscription_loop.simps, subst (2) subscription_loop.simps) simp
  qed
qed

lemma setbuf_subscribeToOpenMarkets:
  "subscribeToOpenMarkets (s\<lparr>buffer := b\<rparr>) = (subscribeToOpenMarkets s)\<lparr>buffer := b\<rparr>"
  by (simp add: subscribeToOpenMarkets_def openMarketIds_of_def Let_def setbuf_subscription_loop)

lemma setbuf_placeBet:
  "placeBet cfg mid sel price t (s\<lparr>buffer := b\<rparr>) = (placeBet cfg mid sel price t s)\<lparr>buffer := b\<rparr>"
  by (simp add: placeBet_def bet_size_for_def Let_def split: option.splits)

lemma setbuf_update_runner_odds:
  "update_runner_odds mid r (s\<lparr>buffer := b\<rparr>) = (update_runner_odds mid r s)\<lparr>buffer := b\<rparr>"
  by (simp add: update_runner_odds_def split: option.splits jsval.splits)

lemma setbuf_fold:
  assumes "\<And>x s. f x (s\<lparr>buffer := b\<rparr>) = (f x s)\<lparr>buffer := b\<rparr>"
  shows "fold f xs (s\<lparr>buffer := b\<rparr>) = (fold f xs s)\<lparr>buffer := b\<rparr>"
  by (induction xs arbitrary: s) (simp_all add: assms)

lemma setbuf_test_bet_trigger:
  "test_bet_trigger cfg mid p (s\<lparr>buffer := b\<rparr>) = (test_bet_trigger cfg mid p s)\<lparr>buffer := b\<rparr>"
  by (simp add: test_bet_trigger_def Let_def setbuf_placeBet split: option.splits)

lemma setbuf_odds_phase:
  "odds_phase cfg mc mid p (s\<lparr>buffer := b\<rparr>) = (odds_phase cfg mc mid p s)\<lparr>buffer := b\<rparr>"
  by (simp add: odds_phase_def Let_def setbuf_test_bet_trigger
        setbuf_fold [of "update_runner_odds mid", OF setbuf_update_runner_odds]
      split: option.splits)

lemma setbuf_first_set_ended:
  "first_set_ended cfg mid g set1 (s\<lparr>buffer := b\<rparr>) = (first_set_ended cfg mid g set1 s)\<lparr>buffer := b\<rparr>"
  by (simp add: first_set_ended_def Let_def setbuf_placeBet split: option.splits)

lemma setbuf_score_phase:
  "score_phase cfg mc mid (s\<lparr>buffer := b\<rparr>) = (score_phase cfg mc mid s)\<lparr>buffer := b\<rparr>"
  by (simp add: score_phase_def Let_def setbuf_first_set_ended split: option.splits list.splits)

lemma setbuf_settle_closed:
  "settle_closed cfg md mid g (s\<lparr>buffer := b\<rparr>) =
     (case settle_closed cfg md mid g s of (pnl, oc, s') \<Rightarrow> (pnl, oc, s'\<lparr>buffer := b\<rparr>))"
  by (simp add: settle_closed_def Let_def split: option.splits)

lemma setbuf_status_phase:
  "status_phase cfg mc mid (s\<lparr>buffer := b\<rparr>) = (status_phase cfg mc mid s)\<lparr>buffer := b\<rparr>"
  by (simp add: status_phase_def Let_def setbuf_settle_closed split: option.splits prod.splits)

lemma setbuf_handle_market_change:
  "handle_market_change cfg mc (s\<lparr>buffer := b\<rparr>) = (handle_market_change cfg mc s)\<lparr>buffer := b\<rparr>"
  by (simp add: handle_market_change_def Let_def setbuf_status_phase setbuf_score_phase
        setbuf_odds_phase split: option.splits)

lemma setbuf_settle_order:
  "settle_order mid g ord (s\<lparr>buffer := b\<rparr>) =
     (case settle_order mid g ord s of (s', t) \<Rightarrow> (s'\<lparr>buffer := b\<rparr>, t))"
  by (simp add: settle_order_def Let_def split: option.splits)

lemma setbuf_settle_orders:
  "settle_orders mid g ords (s\<lparr>buffer := b\<rparr>) =
     (case settle_orders mid g ords s of (s', t) \<Rightarrow> (s'\<lparr>buffer := b\<rparr>, t))"
  by (induction ords arbitrary: s) (auto simp: setbuf_settle_order split: prod.splits bool.splits)

lemma setbuf_handle_order_change:
  "handle_order_change cfg oc (s\<lparr>buffer := b\<rparr>) =
     (case handle_order_change cfg oc s of (s', t) \<Rightarrow> (s'\<lparr>buffer := b\<rparr>, t))"
  by (auto simp: handle_order_change_def has_order_def Let_def setbuf_settle_orders split: option.splits)

lemma setbuf_handle_order_changes:
  "handle_order_changes cfg ocs (s\<lparr>buffer := b\<rparr>) =
     (case handle_order_changes cfg ocs s of (s', t) \<Rightarrow> (s'\<lparr>buffer := b\<rparr>, t))"
  by (induction ocs arbitrary: s) (auto simp: setbuf_handle_order_change split: prod.splits bool.splits)

lemma setbuf_handleStreamMessage:
  "handleStreamMessage cfg m (s\<lparr>buffer := b\<rparr>) = (handleStreamMessage cfg m s)\<lparr>buffer := b\<rparr>"
  by (simp add: handleStreamMessage_def setbuf_subscribeToOpenMarkets setbuf_handle_order_changes
        setbuf_fold [of "handle_market_change cfg", OF setbuf_handle_market_change]
      split: message.splits prod.splits)

lemma setbuf_on_frame:
  "on_frame parse cfg t (s\<lparr>buffer := b\<rparr>) = (on_frame parse cfg t s)\<lparr>buffer := b\<rparr>"
  by (simp add: on_frame_def setbuf_handleStreamMessage split: option.splits)


section \<open>The data handler yields the frames of the text\<close>

lemma drain_frames_of:
  "drain parse cfg s =
     (fold (on_frame parse cfg) (fst (frames_of (buffer s))) s)\<lparr>buffer := snd (frames_of (buffer s))\<rparr>"
proof (induction parse cfg s rule: drain.induct)
  case (1 parse cfg s)
  show ?case
  proof (cases "indexOf_crlf (buffer s)")
    case None
    then show ?thesis
      by (subst drain.simps, subst frames_of.simps, subst (2) frames_of.simps) simp
  next
    case (Some i)
    let ?s1 = "on_frame parse cfg (take i (buffer s)) (s\<lparr>buffer := drop (i + 2) (buffer s)\<rparr>)"
    have b1: "buffer ?s1 = drop (i + 2) (buffer s)" by simp
    have "drain parse cfg s = drain parse cfg ?s1"
      using Some by (subst drain.simps) simp
    also have "\<dots> = (fold (on_frame parse cfg) (fst (frames_of (buffer ?s1))) ?s1)
                        \<lparr>buffer := snd (frames_of (buffer ?s1))\<rparr>"
      using 1 [OF Some] .
    finally show ?thesis
      using Some
      by (subst frames_of.simps, subst (2) frames_of.simps)
         (simp add: b1 setbuf_on_frame setbuf_fold [of "on_frame parse cfg", OF setbuf_on_frame]
            split: prod.splits)
  qed
qed

lemma indexOf_crlf_append_first:
  "indexOf_crlf a = Some i \<Longrightarrow> indexOf_crlf (a @ b) = Some i"
  by (induction a arbitrary: i rule: indexOf_crlf.induct) (auto split: if_splits)

lemma frames_of_append:
  "frames_of (a @ b) =
     (fst (frames_of a) @ fst (frames_of (snd (frames_of a) @ b)),
      snd (frames_of (snd (frames_of a) @ b)))"
proof (induction a rule: frames_of.induct)
  case (1 t)
  show ?case
  proof (cases "indexOf_crlf t")
    case None
    then show ?thesis
      by (subst (2 3 4) frames_of.simps) simp
  next
    case (Some i)
    have len: "i + 2 \<le> length t" using Some by (rule indexOf_crlf_bound)
    have i2: "indexOf_crlf (t @ b) = Some i" using Some by (rule indexOf_crlf_append_first)
    have "frames_of (t @ b) =
            (case frames_of (drop (i + 2) t @ b) of (fs, r) \<Rightarrow> (take i t # fs, r))"
      using i2 len by (subst frames_of.simps) simp
    then show ?thesis
      using 1 [OF Some] Some
      by (subst (2 3 4) frames_of.simps) (simp split: prod.splits)
  qed
qed

lemma indexOf_crlf_terminator:
  "indexOf_crlf f = None \<Longrightarrow> indexOf_crlf (f @ 0x0D # 0x0A # rest) = Some (length f)"
  by (induction f rule: indexOf_crlf.induct) (auto split: if_splits)

lemma frames_of_framed:
  "\<forall>f\<in>set frames. indexOf_crlf f = None \<Longrightarrow> indexOf_crlf rest = None
   \<Longrightarrow> frames_of (framed frames @ rest) = (frames, rest)"
proof (induction frames)
  case Nil
  then show ?case by (subst frames_of.simps) (simp add: framed_def)
next
  case (Cons f fs)
  have "indexOf_crlf (f @ 0x0D # 0x0A # (framed fs @ rest)) = Some (length f)"
    using Cons.prems by (simp add: indexOf_crlf_terminator)
  then show ?case
    using Cons by (subst frames_of.simps) (simp add: framed_def)
qed

lemma frames_of_rest: "indexOf_crlf (snd (frames_of t)) = None"
proof (induction t rule: frames_of.induct)
  case (1 t)
  show ?case
  proof (cases "indexOf_crlf t")
    case None
    then show ?thesis by (subst frames_of.simps) simp
  next
    case (Some i)
    then show ?thesis
      using 1 [OF Some] by (subst frames_of.simps) (auto split: prod.splits)
  qed
qed

lemma on_data_frames_of:
  "on_data parse cfg c s =
     (fold (on_frame parse cfg) (fst (frames_of (buffer s @ toString c))) s)
       \<lparr>buffer := snd (frames_of (buffer s @ toString c))\<rparr>"
  by (simp add: on_data_def drain_frames_of setbuf_fold [of "on_frame parse cfg", OF setbuf_on_frame])

lemma on_data_chunks:
  "indexOf_crlf (buffer s) = None \<Longrightarrow>
   fold (on_data parse cfg) chunks s =
     (fold (on_frame parse cfg) (fst (frames_of (buffer s @ concat (map toString chunks)))) s)
       \<lparr>buffer := snd (frames_of (buffer s @ concat (map toString chunks)))\<rparr>"
proof (induction chunks arbitrary: s)
  case Nil
  then show ?case by (subst (1 2) frames_of.simps) simp
next
  case (Cons c cs)
  let ?t = "buffer s @ toString c"
  let ?rest = "concat (map toString cs)"
  let ?s1 = "on_data parse cfg c s"
  have b1: "buffer ?s1 = snd (frames_of ?t)"
    by (simp add: on_data_frames_of)
  then have free: "indexOf_crlf (buffer ?s1) = None"
    by (simp add: frames_of_rest)
  have split: "frames_of (?t @ ?rest) =
      (fst (frames_of ?t) @ fst (frames_of (snd (frames_of ?t) @ ?rest)),
       snd (frames_of (snd (frames_of ?t) @ ?rest)))"
    by (rule frames_of_append)
  have "fold (on_data parse cfg) (c # cs) s = fold (on_data parse cfg) cs ?s1" by simp
  also have "\<dots> = (fold (on_frame parse cfg) (fst (frames_of (buffer ?s1 @ ?rest))) ?s1)
                      \<lparr>buffer := snd (frames_of (buffer ?s1 @ ?rest))\<rparr>"
    by (rule Cons.IH [OF free])
  also have "\<dots> = (fold (on_frame parse cfg) (fst (frames_of (?t @ ?rest))) s)
                      \<lparr>buffer := snd (frames_of (?t @ ?rest))\<rparr>"
    unfolding b1 split
    by (simp add: on_data_frames_of setbuf_fold [of "on_frame parse cfg", OF setbuf_on_frame])
  finally show ?case by simp
qed

lemma buffer_fold_on_frame [simp]: "buffer (fold (on_frame parse cfg) fs s) = buffer s"
  by (induction fs arbitrary: s) simp_all

lemma utf8_points_ascii:
  "\<forall>b\<in>set bs. b < 0x80 \<Longrightarrow> utf8_points None bs = bs"
  by (induction bs) (simp_all add: utf8_lead_def)

lemma utf16_units_byte: "utf16_units (unat (b :: byte)) = [ucast b]"
proof -
  have "unat b < 2 ^ LENGTH(8)" by (rule unsigned_less)
  then have "unat b < 0x10000" by simp
  then show ?thesis by (simp add: utf16_units_def)
qed

lemma toString_ascii:
  assumes "\<forall>b\<in>set bytes. b < 0x80"
  shows "toString bytes = map ucast bytes"
proof -
  have small: "\<forall>n\<in>set (map unat bytes). n < 0x80"
    using assms by (auto simp: word_less_nat_alt)
  have "concat (map utf16_units (map unat bytes)) = map ucast bytes"
    by (induction bytes) (simp_all add: utf16_units_byte)
  then show ?thesis
    by (simp add: toString_def utf8_points_ascii [OF small])
qed

lemma toString_ascii_chunks:
  assumes "\<forall>c\<in>set chunks. \<forall>b\<in>set c. b < 0x80"
  shows "concat (map toString chunks) = toString (concat chunks)"
proof -
  have "map toString chunks = map (map ucast) chunks"
    using assms by (intro map_cong refl toString_ascii) simp
  moreover have "toString (concat chunks) = map ucast (concat chunks)"
    using assms by (intro toString_ascii) auto
  ultimately show ?thesis by (simp only: map_concat)
qed

lemma isAuthenticated_subscription_loop [simp]:
  "isAuthenticated (subscription_loop i ids s) = isAuthenticated s"
proof (induction i ids s rule: subscription_loop.induct)
  case (1 i ids s)
  then show ?case
    by (subst subscription_loop.simps) simp
qed

lemma isAuthenticated_subscribeToOpenMarkets [simp]:
  "isAuthenticated (subscribeToOpenMarkets s) = isAuthenticated s"
  by (simp add: subscribeToOpenMarkets_def Let_def)

lemma toString_a: "toString [0x61] = [0x61]"
  by (simp add: toString_def utf8_lead_def utf16_units_def)

lemma toString_b_crlf: "toString [0x62, 0x0D, 0x0A] = [0x62, 0x0D, 0x0A]"
  by (simp add: toString_def utf8_lead_def utf16_units_def)

lemma frames_of_a: "frames_of [0x61] = ([], [0x61])"
  by (subst frames_of.simps) simp

lemma frames_of_ab: "frames_of [0x61, 0x62, 0x0D, 0x0A] = ([[0x61, 0x62]], [])"
  by (subst frames_of.simps, subst frames_of.simps) simp

lemma buffer_runBot [simp]: "buffer (runBot ms) = []"
proof -
  have "buffer (fold track_market xs s) = buffer s" for xs s
    by (induction xs arbitrary: s) (simp_all add: track_market_def Let_def split: list.splits)
  then show ?thesis
    by (simp add: runBot_def connectStreamAPI_def initial_state_def)
qed

lemma isAuthenticated_runBot [simp]: "\<not> isAuthenticated (runBot ms)"
proof -
  have "isAuthenticated (fold track_market xs s) = isAuthenticated s" for xs s
    by (induction xs arbitrary: s) (simp_all add: track_market_def Let_def split: list.splits)
  then show ?thesis
    by (simp add: runBot_def connectStreamAPI_def initial_state_def)
qed

lemma toString_e_acute: "toString [0xC3, 0xA9, 0x0D, 0x0A] = [0xE9, 0x0D, 0x0A]"
  by (simp add: toString_def utf8_lead_def utf16_units_def)

lemma toString_lead_alone: "toString [0xC3] = [0xFFFD]"
  by (simp add: toString_def utf8_lead_def utf16_units_def)

lemma toString_continuation_first: "toString [0xA9, 0x0D, 0x0A] = [0xFFFD, 0x0D, 0x0A]"
  by (simp add: toString_def utf8_lead_def utf16_units_def)

lemma on_data_no_terminator:
  "indexOf_crlf (buffer s @ toString chunk) = None \<Longrightarrow>
   on_data parse cfg chunk s = s\<lparr>buffer := buffer s @ toString chunk\<rparr>"
  by (simp add: on_data_def drain.simps)

lemma frames_survive_aux:
  assumes "buffer s = []"
    and "\<forall>f\<in>set frames. indexOf_crlf f = None"
    and "concat (map toString chunks) = framed frames"
  shows "fold (on_data parse cfg) chunks s = fold (on_frame parse cfg) frames s"
proof -
  have "frames_of (framed frames @ []) = (frames, [])"
    using assms(2) by (intro frames_of_framed) simp_all
  then have "fold (on_data parse cfg) chunks s = (fold (on_frame parse cfg) frames s)\<lparr>buffer := []\<rparr>"
    using assms(1,3) on_data_chunks [of s parse cfg chunks] by simp
  moreover have "buffer (fold (on_frame parse cfg) frames s) = []"
    using assms(1) by simp
  ultimately show ?thesis by simp
qed

text \<open>
  The text that is cut into frames is the concatenation of the decoded chunks. Whenever
  that text is N frames, each followed by the terminator and none holding one, feeding the
  chunks one at a time to the data handler from an empty buffer is handling those N frames
  in order, however the text is cut, also between CR and LF. A chunk after which the
  retained text holds no terminator changes nothing but the buffer, which grows by the
  decoded chunk. For chunks of ASCII bytes, decoding chunk by chunk is decoding the
  concatenated bytes.
\<close>

lemma decoded_text_round_trip:
  "(buffer s = [] \<and> (\<forall>f\<in>set frames. indexOf_crlf f = None)
      \<and> concat (map toString chunks) = framed frames
      \<longrightarrow> fold (on_data parse cfg) chunks s = fold (on_frame parse cfg) frames s)
   \<and> (indexOf_crlf (buffer s @ toString chunk) = None
      \<longrightarrow> on_data parse cfg chunk s = s\<lparr>buffer := buffer s @ toString chunk\<rparr>)
   \<and> ((\<forall>c\<in>set chunks. \<forall>b\<in>set c. b < 0x80)
      \<longrightarrow> concat (map toString chunks) = toString (concat chunks))"
  using frames_survive_aux [of s frames chunks parse cfg]
    on_data_no_terminator [of s chunk parse cfg] toString_ascii_chunks [of chunks]
  by blast

text \<open>
  C2, evaluated. The bytes C3 A9 0D 0A are the frame of the one character U+00E9 and its
  terminator. Delivered as one chunk, the frame E9 is handled; cut between CR and LF, the
  handler joins the two chunks and the same frame is handled. Cut inside the character,
  the frame that is handled is FFFD FFFD: the handler decodes each chunk on its own before
  it appends the text to the buffer, and each half of the character decodes to U+FFFD.
  A reader that accepts the frame E9 accepts the first two deliveries and not the third.
\<close>

theorem split_character_corrupts_frame:
  "fold (on_data (parse_only [0xE9]) bot_config) [[0xC3, 0xA9, 0x0D, 0x0A]] (runBot demo_markets)
     = on_frame (parse_only [0xE9]) bot_config [0xE9] (runBot demo_markets)
   \<and> fold (on_data (parse_only [0xE9]) bot_config) [[0xC3, 0xA9, 0x0D], [0x0A]] (runBot demo_markets)
     = on_frame (parse_only [0xE9]) bot_config [0xE9] (runBot demo_markets)
   \<and> fold (on_data (parse_only [0xE9]) bot_config) [[0xC3], [0xA9, 0x0D, 0x0A]] (runBot demo_markets)
     = on_frame (parse_only [0xE9]) bot_config [0xFFFD, 0xFFFD] (runBot demo_markets)
   \<and> isAuthenticated (on_frame (parse_only [0xE9]) bot_config [0xE9] (runBot demo_markets))
   \<and> \<not> isAuthenticated (on_frame (parse_only [0xE9]) bot_config [0xFFFD, 0xFFFD] (runBot demo_markets))"
proof -
  let ?p = "parse_only [0xE9]"
  let ?s = "runBot demo_markets"
  have b: "buffer ?s = []" by simp
  have t1: "toString [0xC3, 0xA9, 0x0D] = [0xE9, 0x0D]" and t2: "toString [0x0A] = [0x0A]"
    by (simp_all add: toString_def utf8_lead_def utf16_units_def)
  have whole: "fold (on_data ?p bot_config) [[0xC3, 0xA9, 0x0D, 0x0A]] ?s
                 = fold (on_frame ?p bot_config) [[0xE9]] ?s"
    by (rule frames_survive_aux [OF b]) (simp_all add: toString_e_acute framed_def)
  have crlf: "fold (on_data ?p bot_config) [[0xC3, 0xA9, 0x0D], [0x0A]] ?s
                 = fold (on_frame ?p bot_config) [[0xE9]] ?s"
    by (rule frames_survive_aux [OF b]) (simp_all add: t1 t2 framed_def)
  have split: "fold (on_data ?p bot_config) [[0xC3], [0xA9, 0x0D, 0x0A]] ?s
                 = fold (on_frame ?p bot_config) [[0xFFFD, 0xFFFD]] ?s"
    by (rule frames_survive_aux [OF b])
       (simp_all add: toString_lead_alone toString_continuation_first framed_def)
  have yes: "isAuthenticated (on_frame ?p bot_config [0xE9] ?s)"
    and no: "\<not> isAuthenticated (on_frame ?p bot_config [0xFFFD, 0xFFFD] ?s)"
    by (simp_all add: on_frame_def parse_only_def handleStreamMessage_def)
  show ?thesis
    using whole crlf split yes no by simp
qed

section \<open>A reconnect keeps the buffer\<close>

text \<open>
  C3, evaluated. After a chunk without a terminator, the close of the socket and the call
  of \<^verbatim>\<open>connectStreamAPI\<close>, the two flags are false and the buffer still holds the chunk.
  The first chunk of the new connection then completes a frame that starts with the text
  of the old one: the frame 61 62 is handled, and without the stale text it is not.
\<close>

theorem stale_buffer_spans_connections:
  "buffer (run (parse_only [0x61, 0x62]) bot_config [Data [0x61], SocketClosed, Reconnect]
       (runBot demo_markets)) = [0x61]
   \<and> \<not> isAuthenticated (run (parse_only [0x61, 0x62]) bot_config
         [Data [0x61], SocketClosed, Reconnect] (runBot demo_markets))
   \<and> \<not> isSubscribed (run (parse_only [0x61, 0x62]) bot_config
         [Data [0x61], SocketClosed, Reconnect] (runBot demo_markets))
   \<and> isAuthenticated (run (parse_only [0x61, 0x62]) bot_config
         [Data [0x61], SocketClosed, Reconnect, Connected, Data [0x62, 0x0D, 0x0A]]
         (runBot demo_markets))
   \<and> \<not> isAuthenticated (run (parse_only [0x61, 0x62]) bot_config
         [Reconnect, Connected, Data [0x62, 0x0D, 0x0A]] (runBot demo_markets))"
proof -
  have f: "frames_of [0x62, 0x0D, 0x0A] = ([[0x62]], [])"
    by (subst frames_of.simps, subst frames_of.simps) simp
  show ?thesis
    by (simp add: run_def on_data_frames_of toString_a toString_b_crlf frames_of_a frames_of_ab
          f on_close_def connectStreamAPI_def on_connect_def on_frame_def parse_only_def
          handleStreamMessage_def)
qed

section \<open>Two bets at once\<close>

text \<open>
  C1, evaluated. In the source's own configuration: a price of 1.5 places the test bet on
  market 1.1 and sets the flag; the closure of market 1.2, which holds no bet, clears the
  flag; a price of 2 on market 1.3 then places a second bet, and two markets hold a bet
  that is not settled. In the live configuration the flag is assigned only after the
  gateway has answered: two prices in a row leave two suspended placements with the flag
  still false, and after the two answers two markets hold a bet.
\<close>

theorem single_bet_invariant_broken:
  "hasOpenBet (fold (handleStreamMessage bot_config) (take 1 demo_three_messages) (runBot demo_markets))
   \<and> markets_with_bet (fold (handleStreamMessage bot_config) (take 2 demo_three_messages)
        (runBot demo_markets)) = [''1.1'']
   \<and> \<not> hasOpenBet (fold (handleStreamMessage bot_config) (take 2 demo_three_messages)
        (runBot demo_markets))
   \<and> markets_with_bet (fold (handleStreamMessage bot_config) demo_three_messages
        (runBot demo_markets)) = [''1.1'', ''1.3'']
   \<and> length (suspended_calls (fold (handleStreamMessage live_config) demo_two_prices
        (runBot demo_markets))) = 2
   \<and> \<not> hasOpenBet (fold (handleStreamMessage live_config) demo_two_prices (runBot demo_markets))
   \<and> markets_with_bet
        (gateway_answers live_config 0 (PlaceOk (Some ''b2''))
          (gateway_answers live_config 0 (PlaceOk (Some ''b1''))
            (fold (handleStreamMessage live_config) demo_two_prices (runBot demo_markets))))
      = [''1.1'', ''1.3'']"
  by code_simp

section \<open>The subscription contract\<close>

lemma subscription_loop_outbox:
  "subscription_loop (10 * j) ids s =
     s\<lparr>outbox := outbox s @
          map (\<lambda>k. MarketSubscription (k + 1) (take 10 (drop (10 * k) ids)))
            [j..<(length ids + 9) div 10]\<rparr>"
proof (induction "10 * j" ids s arbitrary: j rule: subscription_loop.induct)
  case (1 ids s)
  show ?case
  proof (cases "10 * j < length ids")
    case True
    then have lt: "j < (length ids + 9) div 10" by arith
    have step: "10 * j + maxMarketsPerSubscription = 10 * Suc j"
      by (simp add: maxMarketsPerSubscription_def)
    have ih: "subscription_loop (10 * Suc j) ids
                (ws_write (MarketSubscription (1 + 10 * j div maxMarketsPerSubscription)
                   (take maxMarketsPerSubscription (drop (10 * j) ids))) s) =
              (ws_write (MarketSubscription (1 + 10 * j div maxMarketsPerSubscription)
                   (take maxMarketsPerSubscription (drop (10 * j) ids))) s)
              \<lparr>outbox := outbox (ws_write (MarketSubscription (1 + 10 * j div maxMarketsPerSubscription)
                   (take maxMarketsPerSubscription (drop (10 * j) ids))) s) @
                 map (\<lambda>k. MarketSubscription (k + 1) (take 10 (drop (10 * k) ids)))
                   [Suc j..<(length ids + 9) div 10]\<rparr>"
      using 1 [OF True step] .
    show ?thesis
      using True lt ih
      by (subst subscription_loop.simps)
         (simp add: upt_conv_Cons maxMarketsPerSubscription_def add.commute [of 10 "10 * j"]
            del: upt_Suc)
  next
    case False
    then have "\<not> j < (length ids + 9) div 10" by arith
    then show ?thesis
      using False by (subst subscription_loop.simps) simp
  qed
qed






section \<open>Settlement\<close>

lemma settle_closed_win:
  assumes "bet g = Some b" and "md_runners md = Some rs"
    and "find (\<lambda>r. rd_status r = ''WINNER'') rs = Some w"
    and "rd_id w = bet_selectionId b"
  shows "settle_closed cfg md mid g s =
     (jmul (jmul (jsub (bet_price b) (Fin 1)) (bet_size b)) (to_double (95 / 100)), Win,
      (if enableSimulation cfg
       then s\<lparr>simBalance := jadd (simBalance s)
              (jadd (jmul (jmul (jsub (bet_price b) (Fin 1)) (bet_size b)) (to_double (95 / 100)))
                 (bet_size b))\<rparr>
       else s)
      \<lparr>multiplier := Fin 1,
        ndjson := ndjson s @ [(event_key g mid,
          BetOutcome (if enableSimulation cfg then Simulated else Live) mid (bet_selectionId b) Win
            (jmul (jmul (jsub (bet_price b) (Fin 1)) (bet_size b)) (to_double (95 / 100))))]\<rparr>)"
  using assms by (simp add: settle_closed_def Let_def)

lemma settle_closed_lose:
  assumes "bet g = Some b" and "md_runners md = Some rs"
    and "find (\<lambda>r. rd_status r = ''WINNER'') rs = Some w"
    and "rd_id w \<noteq> bet_selectionId b"
  shows "settle_closed cfg md mid g s =
     (jneg (bet_size b), Lose,
      (if enableSimulation cfg then s\<lparr>simBalance := jsub (simBalance s) (bet_size b)\<rparr> else s)
      \<lparr>multiplier := jmul (multiplier s) (Fin 2),
        ndjson := ndjson s @ [(event_key g mid,
          BetOutcome (if enableSimulation cfg then Simulated else Live) mid (bet_selectionId b) Lose
            (jneg (bet_size b)))]\<rparr>)"
  using assms by (simp add: settle_closed_def Let_def)

lemma handle_closed_eq:
  assumes "lookup_game (mc_id mc) s = Some g0" and "isOpen g0"
    and "marketDefinition mc = Some md" and "md_status md = Some ''CLOSED''"
    and "testBetEnabled cfg \<or> \<not> md_inPlay md \<or> md_score md \<noteq> None"
    and "s1 = score_phase cfg mc (mc_id mc) (odds_phase cfg mc (mc_id mc) (md_inPlay md) s)"
    and "lookup_game (mc_id mc) s1 = Some g"
  shows "handle_market_change cfg mc s =
     (case settle_closed cfg md (mc_id mc) (g\<lparr>isOpen := False, status := ENDED\<rparr>)
             (upd_game (mc_id mc) (\<lambda>g. g\<lparr>isOpen := False, status := ENDED\<rparr>) s1) of
        (pnl, outcome, s2) \<Rightarrow>
          s2\<lparr>ndjson := ndjson s2 @ [(event_key g (mc_id mc), MarketClosed outcome pnl)],
              orderIds := (orderIds s2)((mc_id mc) := None),
              gameHistoricalData := AList.delete (mc_id mc) (gameHistoricalData s2),
              hasOpenBet := False, testBetPlaced := False\<rparr>)"
proof -
  have "handle_market_change cfg mc s = status_phase cfg mc (mc_id mc) s1"
    using assms(1-6) by (auto simp: handle_market_change_def Let_def)
  then show ?thesis
    using assms(3,4,7)
    by (simp add: status_phase_def Let_def event_key_def split: prod.splits)
qed

text \<open>
  C5. In simulation, when a delta closes a tracked open market that holds a bet at the
  moment of the closure, and the delta names a winner: if the winner is the bet's
  selection, the profit recorded in the outcome and closure records is
  \<open>(price - 1) * size * (1 - 0.05)\<close>, the simulated balance grows by the profit plus the
  stake, and the multiplier is 1; otherwise the recorded profit is \<open>- size\<close>, the balance
  shrinks by the stake, and the multiplier is doubled. The arithmetic is that of the
  program: every operation yields the nearest double of its exact result, in the order
  the source evaluates them, and the factor \<open>1 - 0.05\<close> is the double that the source
  writes \<^verbatim>\<open>0.95\<close>.
\<close>

theorem settlement_accounting:
  assumes "lookup_game (mc_id mc) s = Some g0" and "isOpen g0"
    and "marketDefinition mc = Some md" and "md_status md = Some ''CLOSED''"
    and "testBetEnabled cfg \<or> \<not> md_inPlay md \<or> md_score md \<noteq> None"
    and "enableSimulation cfg"
    and "s1 = score_phase cfg mc (mc_id mc) (odds_phase cfg mc (mc_id mc) (md_inPlay md) s)"
    and "lookup_game (mc_id mc) s1 = Some g" and "bet g = Some b"
    and "md_runners md = Some rs" and "find (\<lambda>r. rd_status r = ''WINNER'') rs = Some w"
    and "profit = jmul (jmul (jsub (bet_price b) (Fin 1)) (bet_size b))
                    (jsub (Fin 1) (to_double (5 / 100)))"
  shows "(rd_id w = bet_selectionId b \<longrightarrow>
            simBalance (handle_market_change cfg mc s)
              = jadd (simBalance s1) (jadd profit (bet_size b))
          \<and> multiplier (handle_market_change cfg mc s) = Fin 1
          \<and> ndjson (handle_market_change cfg mc s) = ndjson s1 @
               [(event_key g (mc_id mc),
                   BetOutcome Simulated (mc_id mc) (bet_selectionId b) Win profit),
                (event_key g (mc_id mc), MarketClosed Win profit)])
       \<and> (rd_id w \<noteq> bet_selectionId b \<longrightarrow>
            simBalance (handle_market_change cfg mc s) = jsub (simBalance s1) (bet_size b)
          \<and> multiplier (handle_market_change cfg mc s) = jmul (multiplier s1) (Fin 2)
          \<and> ndjson (handle_market_change cfg mc s) = ndjson s1 @
               [(event_key g (mc_id mc),
                   BetOutcome Simulated (mc_id mc) (bet_selectionId b) Lose (jneg (bet_size b))),
                (event_key g (mc_id mc), MarketClosed Lose (jneg (bet_size b)))])
       \<and> jsub (Fin 1) (to_double (5 / 100)) = to_double (95 / 100)"
proof -
  let ?g = "g\<lparr>isOpen := False, status := ENDED\<rparr>"
  have b: "bet ?g = Some b" using assms(9) by simp
  have k: "event_key ?g (mc_id mc) = event_key g (mc_id mc)" by (simp add: event_key_def)
  have factor: "jsub (Fin 1) (to_double (5 / 100)) = to_double (95 / 100)"
    by code_simp
  have profit: "profit = jmul (jmul (jsub (bet_price b) (Fin 1)) (bet_size b)) (to_double (95 / 100))"
    unfolding assms(12) factor ..
  note eq = handle_closed_eq [OF assms(1-5) assms(7) assms(8)]
  show ?thesis
  proof (intro conjI impI)
    assume win: "rd_id w = bet_selectionId b"
    note sc = settle_closed_win [OF b assms(10) assms(11) win, of cfg "mc_id mc"]
    show "simBalance (handle_market_change cfg mc s)
            = jadd (simBalance s1) (jadd profit (bet_size b))"
      unfolding eq sc profit using assms(6) by simp
    show "multiplier (handle_market_change cfg mc s) = Fin 1"
      unfolding eq sc by simp
    show "ndjson (handle_market_change cfg mc s) = ndjson s1 @
               [(event_key g (mc_id mc),
                   BetOutcome Simulated (mc_id mc) (bet_selectionId b) Win profit),
                (event_key g (mc_id mc), MarketClosed Win profit)]"
      unfolding eq sc k profit using assms(6) by simp
  next
    assume lose: "rd_id w \<noteq> bet_selectionId b"
    note sc = settle_closed_lose [OF b assms(10) assms(11) lose, of cfg "mc_id mc"]
    show "simBalance (handle_market_change cfg mc s) = jsub (simBalance s1) (bet_size b)"
      unfolding eq sc using assms(6) by simp
    show "multiplier (handle_market_change cfg mc s) = jmul (multiplier s1) (Fin 2)"
      unfolding eq sc by simp
    show "ndjson (handle_market_change cfg mc s) = ndjson s1 @
               [(event_key g (mc_id mc),
                   BetOutcome Simulated (mc_id mc) (bet_selectionId b) Lose (jneg (bet_size b))),
                (event_key g (mc_id mc), MarketClosed Lose (jneg (bet_size b)))]"
      unfolding eq sc k using assms(6) by simp
  next
    show "jsub (Fin 1) (to_double (5 / 100)) = to_double (95 / 100)"
      by (rule factor)
  qed
qed

theorem settlement_accounting_witness:
  "simBalance (after_first_set 3 6 4) = Fin 90
   \<and> simBalance (handle_market_change sim_config
         (closed_delta ''1.1'' (Some [\<lparr>rd_id = 11, rd_status = ''LOSER''\<rparr>,
                                      \<lparr>rd_id = 12, rd_status = ''WINNER''\<rparr>]))
         (after_first_set 3 6 4)) = Fin 119
   \<and> multiplier (handle_market_change sim_config
         (closed_delta ''1.1'' (Some [\<lparr>rd_id = 11, rd_status = ''LOSER''\<rparr>,
                                      \<lparr>rd_id = 12, rd_status = ''WINNER''\<rparr>]))
         (after_first_set 3 6 4)) = Fin 1
   \<and> ndjson (handle_market_change sim_config
         (closed_delta ''1.1'' (Some [\<lparr>rd_id = 11, rd_status = ''LOSER''\<rparr>,
                                      \<lparr>rd_id = 12, rd_status = ''WINNER''\<rparr>]))
         (after_first_set 3 6 4))
       = ndjson (after_first_set 3 6 4) @
           [(''1.1'', BetOutcome Simulated ''1.1'' 12 Win (Fin 19)),
            (''1.1'', MarketClosed Win (Fin 19))]
   \<and> simBalance (handle_market_change sim_config
         (closed_delta ''1.1'' (Some [\<lparr>rd_id = 11, rd_status = ''WINNER''\<rparr>,
                                      \<lparr>rd_id = 12, rd_status = ''LOSER''\<rparr>]))
         (after_first_set 3 6 4)) = Fin 80
   \<and> multiplier (handle_market_change sim_config
         (closed_delta ''1.1'' (Some [\<lparr>rd_id = 11, rd_status = ''WINNER''\<rparr>,
                                      \<lparr>rd_id = 12, rd_status = ''LOSER''\<rparr>]))
         (after_first_set 3 6 4)) = Fin 2
   \<and> ndjson (handle_market_change sim_config
         (closed_delta ''1.1'' (Some [\<lparr>rd_id = 11, rd_status = ''WINNER''\<rparr>,
                                      \<lparr>rd_id = 12, rd_status = ''LOSER''\<rparr>]))
         (after_first_set 3 6 4))
       = ndjson (after_first_set 3 6 4) @
           [(''1.1'', BetOutcome Simulated ''1.1'' 12 Lose (Fin (- 10))),
            (''1.1'', MarketClosed Lose (Fin (- 10)))]"
proof -
  let ?s = "after_first_set 3 6 4"
  let ?g = "the (lookup_game ''1.1'' ?s)"
  let ?b = "\<lparr>bet_selectionId = 12, bet_size = Fin 10, bet_price = Fin 3\<rparr>"
  let ?rsW = "[\<lparr>rd_id = 11, rd_status = ''LOSER''\<rparr>, \<lparr>rd_id = 12, rd_status = ''WINNER''\<rparr>]"
  let ?rsL = "[\<lparr>rd_id = 11, rd_status = ''WINNER''\<rparr>, \<lparr>rd_id = 12, rd_status = ''LOSER''\<rparr>]"
  let ?md = "\<lambda>rs. \<lparr>md_inPlay = False, md_status = Some ''CLOSED'', md_score = None,
                    md_runners = Some rs\<rparr>"
  have a1: "lookup_game (mc_id (closed_delta ''1.1'' (Some rs))) ?s = Some ?g" for rs
    unfolding closed_delta_def market_change.simps by code_simp
  have a2: "isOpen ?g" by code_simp
  have a3: "marketDefinition (closed_delta ''1.1'' (Some rs)) = Some (?md rs)" for rs
    by (simp add: closed_delta_def)
  have a4: "md_status (?md rs) = Some ''CLOSED''" for rs by simp
  have a5: "testBetEnabled sim_config \<or> \<not> md_inPlay (?md rs) \<or> md_score (?md rs) \<noteq> None" for rs
    by simp
  have a6: "enableSimulation sim_config" by (simp add: sim_config_def)
  have a7: "?s = score_phase sim_config (closed_delta ''1.1'' (Some rs))
                   (mc_id (closed_delta ''1.1'' (Some rs)))
                   (odds_phase sim_config (closed_delta ''1.1'' (Some rs))
                      (mc_id (closed_delta ''1.1'' (Some rs))) (md_inPlay (?md rs)) ?s)" for rs
    by (simp add: score_phase_def odds_phase_def closed_delta_def)
  have a9: "bet ?g = Some ?b" by code_simp
  have a12: "simBalance ?s = Fin 90" by code_simp
  have a13: "md_runners (?md rs) = Some rs" for rs by simp
  have wW: "find (\<lambda>r. rd_status r = ''WINNER'') ?rsW = Some \<lparr>rd_id = 12, rd_status = ''WINNER''\<rparr>"
    by simp
  have wL: "find (\<lambda>r. rd_status r = ''WINNER'') ?rsL = Some \<lparr>rd_id = 11, rd_status = ''WINNER''\<rparr>"
    by simp
  have k: "event_key ?g ''1.1'' = ''1.1''" by code_simp
  have m: "multiplier ?s = Fin 1" by code_simp
  have id: "mc_id (closed_delta ''1.1'' (Some rs)) = ''1.1''" for rs
    by (simp add: closed_delta_def)
  have p19: "jmul (jmul (jsub (bet_price ?b) (Fin 1)) (bet_size ?b))
               (jsub (Fin 1) (to_double (5 / 100))) = Fin 19"
    by code_simp
  have b119: "jadd (Fin 90) (jadd (Fin 19) (bet_size ?b)) = Fin 119"
    by code_simp
  have b80: "jsub (Fin 90) (bet_size ?b) = Fin 80" and n10: "jneg (bet_size ?b) = Fin (- 10)"
    and m2: "jmul (Fin 1) (Fin 2) = Fin 2"
    by code_simp+
  note win = settlement_accounting [OF a1 a2 a3 a4 a5 a6 a7 a1 a9 a13 wW p19 [symmetric]]
  note lose = settlement_accounting [OF a1 a2 a3 a4 a5 a6 a7 a1 a9 a13 wL p19 [symmetric]]
  show ?thesis
    using win lose a12 k m b119 b80 n10 m2 by (simp add: id)
qed

section \<open>The multiplier\<close>

lemma quiet_refl [simp]: "quiet s s"
  by (simp add: quiet_def)

lemma quiet_trans: "quiet s t \<Longrightarrow> quiet t u \<Longrightarrow> quiet s u"
  by (auto simp: quiet_def)

lemma quiet_mult_step: "quiet s s' \<Longrightarrow> mult_step s s'"
  by (auto simp: quiet_def mult_step_def)

lemma mult_step_refl [simp]: "mult_step s s"
  by (simp add: mult_step_def)

lemma mult_step_trans: "mult_step s t \<Longrightarrow> mult_step t u \<Longrightarrow> mult_step s u"
  unfolding mult_step_def
  by (elim conjE exE) (rule conjI, rule_tac x = "xs @ xsa" in exI, auto)

lemma mult_step_buffer [simp]: "mult_step s (s'\<lparr>buffer := b\<rparr>) = mult_step s s'"
  by (simp add: mult_step_def)

lemma quiet_fold:
  assumes "\<And>x s. quiet s (f x s)"
  shows "quiet s (fold f xs s)"
proof (induction xs arbitrary: s)
  case Nil
  show ?case by simp
next
  case (Cons x xs)
  show ?case using quiet_trans [OF assms Cons] by simp
qed

lemma mult_step_fold:
  assumes "\<And>x s. mult_step s (f x s)"
  shows "mult_step s (fold f xs s)"
proof (induction xs arbitrary: s)
  case Nil
  show ?case by simp
next
  case (Cons x xs)
  show ?case using mult_step_trans [OF assms Cons] by simp
qed

lemma quiet_subscribeToOpenMarkets: "quiet s (subscribeToOpenMarkets s)"
  using subscription_loop_outbox [of 0 "openMarketIds_of s" s]
  by (simp add: subscribeToOpenMarkets_def Let_def quiet_def)

lemma quiet_placeBet: "quiet s (placeBet cfg mid sel price t s)"
  by (simp add: placeBet_def Let_def quiet_def is_outcome_def split: option.splits)

lemma quiet_update_runner_odds: "quiet s (update_runner_odds mid r s)"
  by (simp add: update_runner_odds_def quiet_def split: option.splits jsval.splits)

lemma quiet_test_bet_trigger: "quiet s (test_bet_trigger cfg mid p s)"
  by (simp add: test_bet_trigger_def Let_def quiet_placeBet split: option.splits)

lemma quiet_logged:
  "quiet s t \<Longrightarrow> \<not> is_outcome x \<Longrightarrow> quiet s (t\<lparr>ndjson := ndjson t @ [x]\<rparr>)"
  by (auto simp: quiet_def)

lemma quiet_odds_phase: "quiet s (odds_phase cfg mc mid p s)"
proof -
  have "quiet s (test_bet_trigger cfg mid p (fold (update_runner_odds mid) rs s))" for rs
    by (rule quiet_trans [OF quiet_fold quiet_test_bet_trigger]) (rule quiet_update_runner_odds)
  then show ?thesis
    by (auto simp: odds_phase_def Let_def is_outcome_def intro!: quiet_logged split: option.splits)
qed

lemma quiet_first_set_ended: "quiet s (first_set_ended cfg mid g set1 s)"
proof -
  have a: "quiet s t \<Longrightarrow> quiet s (t\<lparr>totalBetsPlaced := n\<rparr>)" for t n
    by (simp add: quiet_def)
  have b: "quiet s (placeBet cfg mid sel v False
             (s\<lparr>gameHistoricalData := gs, totalSetsCompleted := n, totalConditionsMet := m\<rparr>))"
    for sel v gs n m
    by (rule quiet_trans [OF _ quiet_placeBet]) (simp add: quiet_def)
  show ?thesis
    by (auto simp: first_set_ended_def Let_def intro!: a b split: option.splits)
       (simp_all add: quiet_def)
qed

lemma quiet_score_phase: "quiet s (score_phase cfg mc mid s)"
proof -
  have "quiet s (first_set_ended cfg mid g set1 (s\<lparr>gameHistoricalData := gs\<rparr>))" for g set1 gs
    by (rule quiet_trans [OF _ quiet_first_set_ended]) (simp add: quiet_def)
  then show ?thesis
    by (auto simp: score_phase_def Let_def split: option.splits list.splits)
       (simp_all add: quiet_def)
qed

lemma mult_step_settle_closed:
  "settle_closed cfg md mid g s = (pnl, oc, s') \<Longrightarrow> mult_step s s'"
  unfolding settle_closed_def Let_def
  by (auto simp: mult_step_def is_outcome_def split: option.splits if_splits)

lemma mult_step_status_phase: "mult_step s (status_phase cfg mc mid s)"
proof -
  have a: "mult_step s t \<Longrightarrow> \<not> is_outcome x \<Longrightarrow>
      mult_step s (t\<lparr>ndjson := ndjson t @ [x], orderIds := oi, gameHistoricalData := gs,
                     hasOpenBet := False, testBetPlaced := False\<rparr>)" for t x oi gs
    by (auto simp: mult_step_def)
  have b: "mult_step s (s\<lparr>gameHistoricalData := gs\<rparr>)" for gs
    by (simp add: mult_step_def)
  have c: "mult_step s t" if "settle_closed cfg md mid g (s\<lparr>gameHistoricalData := gs\<rparr>) = (pnl, oc, t)"
    for md g gs pnl oc t
    by (rule mult_step_trans [OF b mult_step_settle_closed [OF that]])
  have d: "\<not> is_outcome (ev, MarketClosed oc pnl)" for ev oc pnl
    by (simp add: is_outcome_def)
  show ?thesis
    by (auto simp: status_phase_def Let_def b split: option.splits prod.splits)
       (rule a [OF c d], assumption)
qed

lemma mult_step_handle_market_change: "mult_step s (handle_market_change cfg mc s)"
proof -
  have phases: "mult_step s (status_phase cfg mc mid (score_phase cfg mc mid (odds_phase cfg mc mid p s)))"
    for mid p
  proof -
    have "mult_step s (odds_phase cfg mc mid p s)"
      by (rule quiet_mult_step [OF quiet_odds_phase])
    moreover have "mult_step (odds_phase cfg mc mid p s) (score_phase cfg mc mid (odds_phase cfg mc mid p s))"
      by (rule quiet_mult_step [OF quiet_score_phase])
    ultimately have "mult_step s (score_phase cfg mc mid (odds_phase cfg mc mid p s))"
      by (rule mult_step_trans)
    then show ?thesis
      by (rule mult_step_trans) (rule mult_step_status_phase)
  qed
  have excl: "mult_step s (s\<lparr>gameHistoricalData := gs, ndjson := ndjson s @ [(ev, MarketExcluded m)]\<rparr>)"
    for gs ev m
    by (simp add: mult_step_def is_outcome_def)
  show ?thesis
    by (simp add: handle_market_change_def Let_def phases excl split: option.splits)
qed

lemma mult_step_settle_order: "mult_step s (fst (settle_order mid g ord s))"
  by (auto simp: settle_order_def Let_def mult_step_def is_outcome_def split: option.splits)

lemma mult_step_settle_orders: "mult_step s (fst (settle_orders mid g ords s))"
proof (induction ords arbitrary: s)
  case Nil
  show ?case by simp
next
  case (Cons ord ords)
  obtain s1 t where eq: "settle_order mid g ord s = (s1, t)" by (cases "settle_order mid g ord s")
  have one: "mult_step s s1"
    using mult_step_settle_order [of s mid g ord] eq by simp
  show ?case
  proof (cases t)
    case True
    then show ?thesis using eq one by simp
  next
    case False
    have "mult_step s (fst (settle_orders mid g ords s1))"
      by (rule mult_step_trans [OF one Cons])
    then show ?thesis using eq False by simp
  qed
qed

lemma mult_step_handle_order_change: "mult_step s (fst (handle_order_change cfg oc s))"
  by (simp add: handle_order_change_def Let_def mult_step_settle_orders split: option.splits)

lemma mult_step_handle_order_changes: "mult_step s (fst (handle_order_changes cfg ocs s))"
proof (induction ocs arbitrary: s)
  case Nil
  show ?case by simp
next
  case (Cons oc ocs)
  obtain s1 t where eq: "handle_order_change cfg oc s = (s1, t)"
    by (cases "handle_order_change cfg oc s")
  have one: "mult_step s s1"
    using mult_step_handle_order_change [of s cfg oc] eq by simp
  show ?case
  proof (cases t)
    case True
    then show ?thesis using eq one by simp
  next
    case False
    have "mult_step s (fst (handle_order_changes cfg ocs s1))"
      by (rule mult_step_trans [OF one Cons])
    then show ?thesis using eq False by simp
  qed
qed

lemma mult_step_handleStreamMessage: "mult_step s (handleStreamMessage cfg m s)"
proof (cases m)
  case (Status code)
  have "mult_step s (s\<lparr>isAuthenticated := True\<rparr>)" by (simp add: mult_step_def)
  then have "mult_step s (subscribeToOpenMarkets (s\<lparr>isAuthenticated := True\<rparr>))"
    by (rule mult_step_trans) (rule quiet_mult_step [OF quiet_subscribeToOpenMarkets])
  then show ?thesis using Status by (simp add: handleStreamMessage_def)
next
  case (Mcm mcs)
  have "mult_step s (fold (handle_market_change cfg) xs s)" for xs
    by (rule mult_step_fold) (rule mult_step_handle_market_change)
  then show ?thesis using Mcm by (simp add: handleStreamMessage_def)
next
  case (Ocm ocs)
  then show ?thesis
    by (simp add: handleStreamMessage_def mult_step_handle_order_changes)
next
  case OtherMessage
  then show ?thesis by (simp add: handleStreamMessage_def)
qed

lemma mult_step_on_frame: "mult_step s (on_frame parse cfg t s)"
  by (simp add: on_frame_def mult_step_handleStreamMessage split: option.splits)

lemma mult_step_on_data: "mult_step s (on_data parse cfg c s)"
proof -
  have "mult_step s (fold (on_frame parse cfg) fs s)" for fs
    by (rule mult_step_fold) (rule mult_step_on_frame)
  then show ?thesis by (simp add: on_data_frames_of)
qed

lemma quiet_placeBet_tail: "quiet s t \<Longrightarrow> quiet s (placeBet_tail isTestBet t)"
  by (simp add: placeBet_tail_def Let_def quiet_def)

lemma quiet_resume: "quiet s (resume cfg c r s)"
proof (cases c)
  case (AwaitPlace mid sel price betSize betPrice ev isTestBet)
  show ?thesis
  proof (cases r)
    case PlaceFailed
    then show ?thesis using AwaitPlace by simp
  next
    case (PlaceOk betId)
    then show ?thesis
      using AwaitPlace
      by (simp add: Let_def placeBet_tail_def quiet_def is_outcome_def split: option.splits)
  next
    case (EditReply ok)
    then show ?thesis using AwaitPlace by simp
  qed
next
  case (AwaitEdit mid betId newSize price isTestBet)
  show ?thesis
  proof (cases r)
    case PlaceFailed
    then show ?thesis using AwaitEdit by simp
  next
    case (PlaceOk betId)
    then show ?thesis using AwaitEdit by simp
  next
    case (EditReply ok)
    then show ?thesis
      using AwaitEdit
      by (simp add: Let_def placeBet_tail_def quiet_def is_outcome_def split: option.splits)
  qed
qed

lemma quiet_gateway_answers: "quiet s (gateway_answers cfg i r s)"
proof -
  have "quiet s (resume cfg c r (s\<lparr>suspended_calls := cs\<rparr>))" for c cs
    by (rule quiet_trans [OF _ quiet_resume]) (simp add: quiet_def)
  then show ?thesis by (simp add: gateway_answers_def)
qed

lemma mult_step_step: "mult_step s (step parse cfg e s)"
proof (cases e)
  case Reconnect
  then show ?thesis by (simp add: mult_step_def connectStreamAPI_def)
next
  case Connected
  then show ?thesis by (simp add: mult_step_def on_connect_def)
next
  case (Data chunk)
  then show ?thesis by (simp add: mult_step_on_data)
next
  case SocketError
  then show ?thesis by (simp add: mult_step_def on_error_def)
next
  case SocketClosed
  then show ?thesis by (simp add: mult_step_def on_close_def)
next
  case (GatewayReply i r)
  then show ?thesis by (simp add: quiet_mult_step [OF quiet_gateway_answers])
qed

lemma mult_step_run: "mult_step s (run parse cfg es s)"
  unfolding run_def by (rule mult_step_fold) (rule mult_step_step)

lemma multiplier_runBot: "multiplier (runBot ms) = Fin 1"
proof -
  have "multiplier (fold track_market xs s) = multiplier s" for xs s
    by (induction xs arbitrary: s) (simp_all add: track_market_def Let_def split: list.splits)
  then show ?thesis
    by (simp add: runBot_def connectStreamAPI_def initial_state_def)
qed

lemma multiplier_closed:
  assumes "lookup_game (mc_id mc) s = Some g0" and "isOpen g0"
    and "marketDefinition mc = Some md" and "md_status md = Some ''CLOSED''"
    and "testBetEnabled cfg \<or> \<not> md_inPlay md \<or> md_score md \<noteq> None"
    and "s1 = score_phase cfg mc (mc_id mc) (odds_phase cfg mc (mc_id mc) (md_inPlay md) s)"
    and "lookup_game (mc_id mc) s1 = Some g" and "bet g = Some b"
    and "md_runners md = Some rs" and "find (\<lambda>r. rd_status r = ''WINNER'') rs = Some w"
  shows "multiplier (handle_market_change cfg mc s) =
           (if rd_id w = bet_selectionId b then Fin 1 else jmul (multiplier s) (Fin 2))"
proof -
  let ?g = "g\<lparr>isOpen := False, status := ENDED\<rparr>"
  have b: "bet ?g = Some b" using assms(8) by simp
  have "quiet s s1"
    unfolding assms(6) by (rule quiet_trans [OF quiet_odds_phase quiet_score_phase])
  then have m: "multiplier s1 = multiplier s" by (simp add: quiet_def)
  note eq = handle_closed_eq [OF assms(1-5) assms(6) assms(7)]
  show ?thesis
  proof (cases "rd_id w = bet_selectionId b")
    case True
    show ?thesis
      unfolding eq settle_closed_win [OF b assms(9) assms(10) True] using True by simp
  next
    case False
    show ?thesis
      unfolding eq settle_closed_lose [OF b assms(9) assms(10) False] using False m by simp
  qed
qed

lemma multiplier_order:
  assumes "lookup_game (oc_marketId oc) s = Some g" and "bet g = Some b"
    and "has_order (oc_marketId oc) s" and "\<not> enableSimulation cfg"
    and "oc_or oc = Some [ord]" and "or_status ord = Some ''EXECUTION_COMPLETE''"
    and "or_profit ord = Some profit" and "or_betId ord = orderIds s (oc_marketId oc)"
  shows "multiplier (handleStreamMessage cfg (Ocm (Some [oc])) s) =
           (if jlt (Fin 0) profit then Fin 1 else jmul (multiplier s) (Fin 2))"
  using assms
  by (simp add: handleStreamMessage_def handle_order_change_def settle_order_def Let_def)

lemma doubling_funpow:
  "(twice ^^ n) (Fin 1) = (if n \<le> 1023 then Fin (2 ^ n) else PInf)"
proof (induction n)
  case 0
  show ?case by simp
next
  case (Suc n)
  have step: "(twice ^^ Suc n) (Fin 1) = jmul ((twice ^^ n) (Fin 1)) (Fin 2)"
    by (simp add: twice_def)
  show ?case
  proof (cases "n \<le> 1023")
    case True
    have "(twice ^^ Suc n) (Fin 1) = (if n < 1023 then Fin (2 ^ Suc n) else PInf)"
      unfolding step Suc if_P [OF True] by (rule jmul_power2_two)
    then show ?thesis by (simp add: less_eq_Suc_le)
  next
    case False
    have "(twice ^^ Suc n) (Fin 1) = jmul PInf (Fin 2)"
      unfolding step Suc if_not_P [OF False] ..
    then show ?thesis using False by simp
  qed
qed

lemma settle_order_matching:
  assumes "bet g = Some b"
    and "or_status r = Some ''EXECUTION_COMPLETE''" and "or_profit r = Some (Fin (- 10))"
    and "or_betId r = orderIds s mid"
  shows "snd (settle_order mid g r s) = False"
    and "orderIds (fst (settle_order mid g r s)) mid = None"
    and "multiplier (fst (settle_order mid g r s)) = twice (multiplier s)"
  using assms by (simp_all add: settle_order_def Let_def twice_def)

lemma settle_orders_again:
  assumes "orderIds s mid = None" and "bet g = Some b"
    and "or_status r = Some ''EXECUTION_COMPLETE''" and "or_profit r = Some (Fin (- 10))"
    and "or_betId r = None"
  shows "multiplier (fst (settle_orders mid g (replicate n r) s)) = (twice ^^ n) (multiplier s)"
  using assms(1)
proof (induction n arbitrary: s)
  case 0
  show ?case by simp
next
  case (Suc n)
  obtain s1 t where eq: "settle_order mid g r s = (s1, t)" by (cases "settle_order mid g r s")
  have "or_betId r = orderIds s mid" using Suc.prems assms(5) by simp
  note one = settle_order_matching [OF assms(2-4) this]
  have t: "t = False" and ids: "orderIds s1 mid = None"
    and m: "multiplier s1 = twice (multiplier s)"
    using one eq by simp_all
  show ?case
    using Suc.IH [OF ids] eq t m by (simp add: funpow_swap1)
qed

lemma losing_reports_multiplier:
  assumes "lookup_game ''1.1'' s = Some g" and "bet g = Some b"
    and "orderIds s ''1.1'' = Some ''b1''" and "multiplier s = Fin 1"
  shows "multiplier (handleStreamMessage live_config (Ocm (Some [losing_reports n])) s)
           = (if Suc n \<le> 1023 then Fin (2 ^ Suc n) else PInf)"
proof -
  let ?first = "\<lparr>or_status = Some ''EXECUTION_COMPLETE'', or_profit = Some (Fin (- 10)),
                   or_betId = Some ''b1''\<rparr>"
  let ?r = "\<lparr>or_status = Some ''EXECUTION_COMPLETE'', or_profit = Some (Fin (- 10)),
               or_betId = None :: string option\<rparr>"
  obtain s1 t where eq: "settle_order ''1.1'' g ?first s = (s1, t)"
    by (cases "settle_order ''1.1'' g ?first s")
  have "or_betId ?first = orderIds s ''1.1''" using assms(3) by simp
  note one = settle_order_matching [OF assms(2) _ _ this]
  have t: "t = False" and ids: "orderIds s1 ''1.1'' = None"
    and m: "multiplier s1 = twice (Fin 1)"
    using one eq assms(4) by simp_all
  have "multiplier (fst (settle_orders ''1.1'' g (replicate n ?r) s1)) = (twice ^^ n) (multiplier s1)"
    by (rule settle_orders_again [OF ids assms(2)]) simp_all
  then have all: "multiplier (fst (settle_orders ''1.1'' g (?first # replicate n ?r) s))
                    = (twice ^^ Suc n) (Fin 1)"
    using eq t m by (simp add: funpow_swap1)
  have ho: "has_order ''1.1'' s"
    using assms(3) by (simp add: has_order_def)
  have "handleStreamMessage live_config (Ocm (Some [losing_reports n])) s
          = fst (settle_orders ''1.1'' g (?first # replicate n ?r) s)"
    using assms(1) ho
    by (simp add: handleStreamMessage_def handle_order_change_def losing_reports_def
          live_config_def split: prod.splits bool.splits)
  then show ?thesis
    unfolding all [symmetric] using all doubling_funpow [of "Suc n"] by simp
qed

text \<open>
  C6, as the code has it. The multiplier is 1 when the bot starts. After any sequence of
  events it is a power of two, at most \<open>2 ^ 1023\<close>, or \<^verbatim>\<open>Infinity\<close>. A step that changes it
  appends the record of a bet's outcome to the log, so it changes only at a settlement.
  The closure of a market that holds a bet and names a winner sets it to 1 when the bet's
  selection won and multiplies it by 2 otherwise; an order change that reports the tracked
  order complete sets it to 1 when the reported profit is positive and multiplies it by 2
  otherwise. The product is that of doubles: a power of two below \<open>2 ^ 1023\<close> is doubled
  exactly, \<open>2 ^ 1023\<close> becomes \<^verbatim>\<open>Infinity\<close>, and \<^verbatim>\<open>Infinity\<close> stays.
\<close>

theorem multiplier_law:
  "multiplier (runBot ms) = Fin 1
   \<and> (multiplier (run parse cfg events (runBot ms)) = PInf
       \<or> (\<exists>k\<le>1023. multiplier (run parse cfg events (runBot ms)) = Fin (2 ^ k)))
   \<and> (multiplier (step parse cfg e s) = multiplier s \<or> settles s (step parse cfg e s))
   \<and> (lookup_game (mc_id mc) s = Some g0 \<and> isOpen g0
        \<and> marketDefinition mc = Some md \<and> md_status md = Some ''CLOSED''
        \<and> (testBetEnabled cfg \<or> \<not> md_inPlay md \<or> md_score md \<noteq> None)
        \<and> lookup_game (mc_id mc)
             (score_phase cfg mc (mc_id mc) (odds_phase cfg mc (mc_id mc) (md_inPlay md) s)) = Some g
        \<and> bet g = Some b
        \<and> md_runners md = Some rs \<and> find (\<lambda>r. rd_status r = ''WINNER'') rs = Some w
      \<longrightarrow> multiplier (handle_market_change cfg mc s) =
            (if rd_id w = bet_selectionId b then Fin 1 else jmul (multiplier s) (Fin 2)))
   \<and> (lookup_game (oc_marketId oc) s = Some g \<and> bet g = Some b
        \<and> has_order (oc_marketId oc) s \<and> \<not> enableSimulation cfg
        \<and> oc_or oc = Some [ord] \<and> or_status ord = Some ''EXECUTION_COMPLETE''
        \<and> or_profit ord = Some profit \<and> or_betId ord = orderIds s (oc_marketId oc)
      \<longrightarrow> multiplier (handleStreamMessage cfg (Ocm (Some [oc])) s) =
            (if jlt (Fin 0) profit then Fin 1 else jmul (multiplier s) (Fin 2)))
   \<and> (k < 1023 \<longrightarrow> jmul (Fin (2 ^ k)) (Fin 2) = Fin (2 ^ Suc k))
   \<and> jmul (Fin (2 ^ 1023)) (Fin 2) = PInf
   \<and> jmul PInf (Fin 2) = PInf"
proof -
  have start: "multiplier (runBot ms) = Fin 1" by (rule multiplier_runBot)
  have "doubling_value (multiplier (runBot ms))"
    unfolding start by simp
  then have "doubling_value (multiplier (run parse cfg events (runBot ms)))"
    using mult_step_run [of "runBot ms" parse cfg events] by (simp add: mult_step_def)
  then have always: "multiplier (run parse cfg events (runBot ms)) = PInf
       \<or> (\<exists>k\<le>1023. multiplier (run parse cfg events (runBot ms)) = Fin (2 ^ k))"
    by (simp add: doubling_value_def)
  have only: "multiplier (step parse cfg e s) = multiplier s \<or> settles s (step parse cfg e s)"
    using mult_step_step [of s parse cfg e] by (auto simp: mult_step_def settles_def)
  have closed: "multiplier (handle_market_change cfg mc s) =
            (if rd_id w = bet_selectionId b then Fin 1 else jmul (multiplier s) (Fin 2))"
    if "lookup_game (mc_id mc) s = Some g0" and "isOpen g0"
      and "marketDefinition mc = Some md" and "md_status md = Some ''CLOSED''"
      and "testBetEnabled cfg \<or> \<not> md_inPlay md \<or> md_score md \<noteq> None"
      and "lookup_game (mc_id mc)
             (score_phase cfg mc (mc_id mc) (odds_phase cfg mc (mc_id mc) (md_inPlay md) s)) = Some g"
      and "bet g = Some b"
      and "md_runners md = Some rs" and "find (\<lambda>r. rd_status r = ''WINNER'') rs = Some w"
    using that(1-5) refl that(6-9) by (rule multiplier_closed)
  have order: "multiplier (handleStreamMessage cfg (Ocm (Some [oc])) s) =
            (if jlt (Fin 0) profit then Fin 1 else jmul (multiplier s) (Fin 2))"
    if "lookup_game (oc_marketId oc) s = Some g" and "bet g = Some b"
      and "has_order (oc_marketId oc) s" and "\<not> enableSimulation cfg"
      and "oc_or oc = Some [ord]" and "or_status ord = Some ''EXECUTION_COMPLETE''"
      and "or_profit ord = Some profit" and "or_betId ord = orderIds s (oc_marketId oc)"
    using that by (rule multiplier_order)
  have exact: "jmul (Fin (2 ^ k)) (Fin 2) = Fin (2 ^ Suc k)" if "k < 1023"
    using that by (simp only: jmul_power2_two if_True)
  have "jmul (Fin (2 ^ n)) (Fin 2) = PInf" if "n = 1023" for n :: nat
    using that by (simp only: jmul_power2_two) simp
  then have over: "jmul (Fin (2 ^ 1023)) (Fin 2) = PInf"
    by blast
  have stays: "jmul PInf (Fin 2) = PInf"
    by simp
  show ?thesis
    using start always only closed order exact over stays by blast
qed

theorem multiplier_law_witness:
  "multiplier (runBot demo_markets) = Fin 1
   \<and> (multiplier (run (parse_only [0x61]) bot_config [Connected, Data [0x61, 0x0D, 0x0A]]
              (runBot demo_markets)) = PInf
       \<or> (\<exists>k\<le>1023. multiplier (run (parse_only [0x61]) bot_config
              [Connected, Data [0x61, 0x0D, 0x0A]] (runBot demo_markets)) = Fin (2 ^ k)))
   \<and> (multiplier (step (parse_only [0x61]) bot_config Reconnect (after_first_set 3 6 4))
        = multiplier (after_first_set 3 6 4)
      \<or> settles (after_first_set 3 6 4)
           (step (parse_only [0x61]) bot_config Reconnect (after_first_set 3 6 4)))
   \<and> multiplier (after_first_set 3 6 4) = Fin 1
   \<and> multiplier (handle_market_change sim_config
         (closed_delta ''1.1'' (Some [\<lparr>rd_id = 11, rd_status = ''WINNER''\<rparr>,
                                      \<lparr>rd_id = 12, rd_status = ''LOSER''\<rparr>]))
         (after_first_set 3 6 4)) = Fin 2
   \<and> multiplier (handle_market_change sim_config
         (closed_delta ''1.1'' (Some [\<lparr>rd_id = 11, rd_status = ''LOSER''\<rparr>,
                                      \<lparr>rd_id = 12, rd_status = ''WINNER''\<rparr>]))
         (after_first_set 3 6 4)) = Fin 1
   \<and> multiplier demo_live_bet = Fin 1
   \<and> multiplier (handleStreamMessage live_config
         (Ocm (Some [order_complete ''1.1'' ''b1'' (- 10)])) demo_live_bet) = Fin 2
   \<and> multiplier (handleStreamMessage live_config
         (Ocm (Some [order_complete ''1.1'' ''b1'' 5])) demo_live_bet) = Fin 1
   \<and> jmul (Fin (2 ^ 3)) (Fin 2) = Fin (2 ^ Suc 3)"
proof -
  let ?s = "after_first_set 3 6 4"
  let ?g = "the (lookup_game ''1.1'' ?s)"
  let ?b = "\<lparr>bet_selectionId = 12, bet_size = Fin 10, bet_price = Fin 3\<rparr>"
  let ?rsW = "[\<lparr>rd_id = 11, rd_status = ''LOSER''\<rparr>, \<lparr>rd_id = 12, rd_status = ''WINNER''\<rparr>]"
  let ?rsL = "[\<lparr>rd_id = 11, rd_status = ''WINNER''\<rparr>, \<lparr>rd_id = 12, rd_status = ''LOSER''\<rparr>]"
  let ?md = "\<lambda>rs. \<lparr>md_inPlay = False, md_status = Some ''CLOSED'', md_score = None,
                    md_runners = Some rs\<rparr>"
  let ?p = "parse_only [0x61]"
  have a1: "lookup_game (mc_id (closed_delta ''1.1'' (Some rs))) ?s = Some ?g" for rs
    unfolding closed_delta_def market_change.simps by code_simp
  have a2: "isOpen ?g" by code_simp
  have a3: "marketDefinition (closed_delta ''1.1'' (Some rs)) = Some (?md rs)" for rs
    by (simp add: closed_delta_def)
  have a4: "md_status (?md rs) = Some ''CLOSED''" for rs by simp
  have a5: "testBetEnabled sim_config \<or> \<not> md_inPlay (?md rs) \<or> md_score (?md rs) \<noteq> None" for rs
    by simp
  have a7: "score_phase sim_config (closed_delta ''1.1'' (Some rs))
                   (mc_id (closed_delta ''1.1'' (Some rs)))
                   (odds_phase sim_config (closed_delta ''1.1'' (Some rs))
                      (mc_id (closed_delta ''1.1'' (Some rs))) (md_inPlay (?md rs)) ?s) = ?s" for rs
    by (simp add: score_phase_def odds_phase_def closed_delta_def)
  have a8: "lookup_game (mc_id (closed_delta ''1.1'' (Some rs)))
              (score_phase sim_config (closed_delta ''1.1'' (Some rs))
                   (mc_id (closed_delta ''1.1'' (Some rs)))
                   (odds_phase sim_config (closed_delta ''1.1'' (Some rs))
                      (mc_id (closed_delta ''1.1'' (Some rs))) (md_inPlay (?md rs)) ?s)) = Some ?g" for rs
    unfolding a7 by (rule a1)
  have a9: "bet ?g = Some ?b" by code_simp
  have a13: "md_runners (?md rs) = Some rs" for rs by simp
  have wW: "find (\<lambda>r. rd_status r = ''WINNER'') ?rsW = Some \<lparr>rd_id = 12, rd_status = ''WINNER''\<rparr>"
    by simp
  have wL: "find (\<lambda>r. rd_status r = ''WINNER'') ?rsL = Some \<lparr>rd_id = 11, rd_status = ''WINNER''\<rparr>"
    by simp
  have m: "multiplier ?s = Fin 1" by code_simp
  have two: "jmul (Fin 1) (Fin 2) = Fin 2" by code_simp
  note law = multiplier_law [of demo_markets ?p bot_config "[Connected, Data [0x61, 0x0D, 0x0A]]"
      Reconnect ?s, where k = 3]
  have c1: "multiplier (runBot demo_markets) = Fin 1"
    and c2: "multiplier (run ?p bot_config [Connected, Data [0x61, 0x0D, 0x0A]]
              (runBot demo_markets)) = PInf
       \<or> (\<exists>k\<le>1023. multiplier (run ?p bot_config
              [Connected, Data [0x61, 0x0D, 0x0A]] (runBot demo_markets)) = Fin (2 ^ k))"
    and c3: "multiplier (step ?p bot_config Reconnect ?s) = multiplier ?s
              \<or> settles ?s (step ?p bot_config Reconnect ?s)"
    and c4: "jmul (Fin (2 ^ 3)) (Fin 2) = Fin (2 ^ Suc 3)"
    using law by simp_all
  have lose: "multiplier (handle_market_change sim_config (closed_delta ''1.1'' (Some ?rsL)) ?s) = Fin 2"
    using multiplier_law [of demo_markets ?p sim_config "[]" Reconnect ?s
        "closed_delta ''1.1'' (Some ?rsL)" ?g "?md ?rsL" ?g ?b ?rsL
        "\<lparr>rd_id = 11, rd_status = ''WINNER''\<rparr>"]
      a1 a2 a3 a4 a5 a8 a9 a13 wL m two
    by simp
  have win: "multiplier (handle_market_change sim_config (closed_delta ''1.1'' (Some ?rsW)) ?s) = Fin 1"
    using multiplier_law [of demo_markets ?p sim_config "[]" Reconnect ?s
        "closed_delta ''1.1'' (Some ?rsW)" ?g "?md ?rsW" ?g ?b ?rsW
        "\<lparr>rd_id = 12, rd_status = ''WINNER''\<rparr>"]
      a1 a2 a3 a4 a5 a8 a9 a13 wW m
    by simp
  let ?l = demo_live_bet
  let ?lg = "the (lookup_game ''1.1'' ?l)"
  let ?lb = "\<lparr>bet_selectionId = 11, bet_size = Fin 10, bet_price = Fin (3 / 2)\<rparr>"
  let ?ord = "\<lambda>p. \<lparr>or_status = Some ''EXECUTION_COMPLETE'', or_profit = Some (Fin p),
                     or_betId = Some ''b1''\<rparr>"
  have o1: "lookup_game (oc_marketId (order_complete ''1.1'' ''b1'' p)) ?l = Some ?lg" for p
    unfolding order_complete_def order_change.simps by code_simp
  have o2: "bet ?lg = Some ?lb" by code_simp
  have ids: "orderIds ?l ''1.1'' = Some ''b1''" by code_simp
  have o3: "has_order (oc_marketId (order_complete ''1.1'' ''b1'' p)) ?l" for p
    by (simp add: order_complete_def has_order_def ids)
  have o4: "\<not> enableSimulation live_config" by (simp add: live_config_def)
  have o5: "oc_or (order_complete ''1.1'' ''b1'' p) = Some [?ord p]" for p
    by (simp add: order_complete_def)
  have o8: "or_betId (?ord p) = orderIds ?l (oc_marketId (order_complete ''1.1'' ''b1'' p))" for p
    by (simp add: order_complete_def ids)
  have lm: "multiplier ?l = Fin 1" by code_simp
  have olose: "multiplier (handleStreamMessage live_config
         (Ocm (Some [order_complete ''1.1'' ''b1'' (- 10)])) ?l) = Fin 2"
    using multiplier_law [of demo_markets ?p live_config "[]" Reconnect ?l
        "closed_delta ''1.1'' None" ?lg "?md []" ?lg ?lb "[]"
        "\<lparr>rd_id = 11, rd_status = ''WINNER''\<rparr>" "order_complete ''1.1'' ''b1'' (- 10)"
        "?ord (- 10)" "Fin (- 10)"]
      o1 o2 o3 o4 o5 o8 lm two
    by simp
  have owin: "multiplier (handleStreamMessage live_config
         (Ocm (Some [order_complete ''1.1'' ''b1'' 5])) ?l) = Fin 1"
    using multiplier_law [of demo_markets ?p live_config "[]" Reconnect ?l
        "closed_delta ''1.1'' None" ?lg "?md []" ?lg ?lb "[]"
        "\<lparr>rd_id = 11, rd_status = ''WINNER''\<rparr>" "order_complete ''1.1'' ''b1'' 5"
        "?ord 5" "Fin 5"]
      o1 o2 o3 o4 o5 o8 lm
    by simp
  show ?thesis
    using c1 c2 c3 c4 m lose win lm olose owin by blast
qed

text \<open>
  C6 as stated fails. In the live configuration, with the test bet on market 1.1 accepted
  as bet \<open>b1\<close>, one order change reports 1024 losses: after the 1024th doubling the
  multiplier is \<^verbatim>\<open>Infinity\<close>, which is no power of two and not the double of \<open>2 ^ 1023\<close>.
\<close>

theorem multiplier_overflows:
  "multiplier demo_live_bet = Fin 1
   \<and> multiplier (handleStreamMessage live_config (Ocm (Some [losing_reports 1023])) demo_live_bet)
       = PInf"
proof -
  let ?lg = "the (lookup_game ''1.1'' demo_live_bet)"
  let ?lb = "\<lparr>bet_selectionId = 11, bet_size = Fin 10, bet_price = Fin (3 / 2)\<rparr>"
  have o1: "lookup_game ''1.1'' demo_live_bet = Some ?lg" by code_simp
  have o2: "bet ?lg = Some ?lb" by code_simp
  have ids: "orderIds demo_live_bet ''1.1'' = Some ''b1''" by code_simp
  have lm: "multiplier demo_live_bet = Fin 1" by code_simp
  have "\<not> Suc n \<le> 1023" if "n = 1023" for n :: nat
    using that by simp
  then have "\<not> Suc 1023 \<le> (1023 :: nat)" by blast
  then show ?thesis
    using lm losing_reports_multiplier [OF o1 o2 ids lm, of 1023] by (simp only: if_False simp_thms)
qed

section \<open>Stored odds\<close>

lemma store_ok_map_entry:
  "store_ok gs \<Longrightarrow> (\<And>g. game_odds_ok g \<Longrightarrow> game_odds_ok (f g))
   \<Longrightarrow> store_ok (AList.map_entry k f gs)"
  by (induction gs) (auto simp: store_ok_def)

lemma store_ok_delete: "store_ok gs \<Longrightarrow> store_ok (AList.delete k gs)"
  by (induction gs) (auto simp: store_ok_def)

lemma store_ok_same_odds:
  "store_ok gs \<Longrightarrow> (\<And>g. currentOdds (f g) = currentOdds g)
   \<Longrightarrow> store_ok (AList.map_entry k f gs)"
  by (rule store_ok_map_entry) (simp_all add: game_odds_ok_def)

lemma above_one: "odds \<noteq> NaN \<Longrightarrow> \<not> jle odds (Fin 1) \<Longrightarrow> jlt (Fin 1) odds"
  by (cases odds) auto

lemma not_above_one: "jlt (Fin 1) odds \<Longrightarrow> odds \<noteq> NaN \<and> odds \<noteq> Fin 0 \<and> \<not> jle odds (Fin 1)"
  by (cases odds) auto

lemma odds_inv_placeBet: "odds_inv s \<Longrightarrow> odds_inv (placeBet cfg mid sel price t s)"
  by (simp add: placeBet_def Let_def odds_inv_def store_ok_same_odds split: option.splits)

lemma odds_inv_update_runner_odds: "odds_inv s \<Longrightarrow> odds_inv (update_runner_odds mid r s)"
  by (auto simp: update_runner_odds_def odds_inv_def game_odds_ok_def valid_odds_def
      dest: above_one intro!: store_ok_map_entry split: option.splits jsval.splits)

lemma odds_inv_fold:
  assumes "\<And>x s. odds_inv s \<Longrightarrow> odds_inv (f x s)"
  shows "odds_inv s \<Longrightarrow> odds_inv (fold f xs s)"
  by (induction xs arbitrary: s) (simp_all add: assms)

lemma odds_inv_test_bet_trigger: "odds_inv s \<Longrightarrow> odds_inv (test_bet_trigger cfg mid p s)"
  by (simp add: test_bet_trigger_def Let_def odds_inv_placeBet split: option.splits)

lemma odds_inv_logged: "odds_inv (s\<lparr>ndjson := l\<rparr>) = odds_inv s"
  by (simp add: odds_inv_def)

lemma odds_inv_odds_phase: "odds_inv s \<Longrightarrow> odds_inv (odds_phase cfg mc mid p s)"
  by (simp add: odds_phase_def Let_def odds_inv_logged odds_inv_test_bet_trigger
        odds_inv_fold [of "update_runner_odds mid", OF odds_inv_update_runner_odds]
      split: option.splits)

lemma odds_inv_first_set_ended:
  assumes "odds_inv s"
  shows "odds_inv (first_set_ended cfg mid g set1 s)"
proof -
  have a: "odds_inv (s\<lparr>gameHistoricalData := AList.map_entry mid (\<lambda>g. g\<lparr>hasFirstSetEnded := True\<rparr>)
              (gameHistoricalData s), totalSetsCompleted := n\<rparr>)" for n
    using assms by (simp add: odds_inv_def store_ok_same_odds)
  have b: "odds_inv t \<Longrightarrow> odds_inv (t\<lparr>totalConditionsMet := m\<rparr>)" for t m
    by (simp add: odds_inv_def)
  have c: "odds_inv t \<Longrightarrow> odds_inv (t\<lparr>totalBetsPlaced := m\<rparr>)" for t m
    by (simp add: odds_inv_def)
  show ?thesis
    by (simp add: first_set_ended_def Let_def a b c odds_inv_placeBet split: option.splits)
qed

lemma odds_inv_score_phase:
  assumes "odds_inv s"
  shows "odds_inv (score_phase cfg mc mid s)"
proof -
  have a: "odds_inv (s\<lparr>gameHistoricalData := AList.map_entry mid (\<lambda>g. g\<lparr>sets := x\<rparr>)
              (gameHistoricalData s)\<rparr>)" for x
    using assms by (simp add: odds_inv_def store_ok_same_odds)
  show ?thesis
    using assms
    by (simp add: score_phase_def Let_def a odds_inv_first_set_ended [OF a]
        split: option.splits list.splits)
qed

lemma odds_inv_status_phase:
  assumes "odds_inv s"
  shows "odds_inv (status_phase cfg mc mid s)"
proof -
  have a: "store_ok (AList.map_entry mid f (gameHistoricalData s))"
    if "\<And>g. currentOdds (f g) = currentOdds g" for f
    using assms that by (simp add: odds_inv_def store_ok_same_odds)
  have b: "gameHistoricalData t = gs" if "settle_closed cfg md mid g (s\<lparr>gameHistoricalData := gs\<rparr>) = (pnl, oc, t)"
    for md g gs pnl oc t
    using store_settle_closed [OF that] by simp
  show ?thesis
    by (auto simp: status_phase_def Let_def odds_inv_def a store_ok_delete dest!: b
        split: option.splits prod.splits)
qed

lemma odds_inv_handle_market_change:
  assumes "odds_inv s"
  shows "odds_inv (handle_market_change cfg mc s)"
proof -
  have a: "odds_inv (s\<lparr>gameHistoricalData := AList.map_entry mid (\<lambda>g. g\<lparr>isOpen := False\<rparr>)
              (gameHistoricalData s), ndjson := l\<rparr>)" for mid l
    using assms by (simp add: odds_inv_def store_ok_same_odds)
  have b: "odds_inv (status_phase cfg mc mid (score_phase cfg mc mid (odds_phase cfg mc mid p s)))"
    for mid p
    by (intro odds_inv_status_phase odds_inv_score_phase odds_inv_odds_phase assms)
  show ?thesis
    using assms by (simp add: handle_market_change_def Let_def a b split: option.splits)
qed

lemma store_settle_order: "gameHistoricalData (fst (settle_order mid g ord s)) = gameHistoricalData s"
  by (simp add: settle_order_def Let_def split: option.splits)

lemma store_settle_orders: "gameHistoricalData (fst (settle_orders mid g ords s)) = gameHistoricalData s"
proof (induction ords arbitrary: s)
  case Nil
  show ?case by simp
next
  case (Cons ord ords)
  obtain s1 t where eq: "settle_order mid g ord s = (s1, t)" by (cases "settle_order mid g ord s")
  have "gameHistoricalData s1 = gameHistoricalData s"
    using store_settle_order [of mid g ord s] eq by simp
  then show ?case
    using eq Cons [of s1] by (cases t) simp_all
qed

lemma store_handle_order_change:
  "gameHistoricalData (fst (handle_order_change cfg oc s)) = gameHistoricalData s"
  by (simp add: handle_order_change_def Let_def store_settle_orders split: option.splits)

lemma store_handle_order_changes:
  "gameHistoricalData (fst (handle_order_changes cfg ocs s)) = gameHistoricalData s"
proof (induction ocs arbitrary: s)
  case Nil
  show ?case by simp
next
  case (Cons oc ocs)
  obtain s1 t where eq: "handle_order_change cfg oc s = (s1, t)"
    by (cases "handle_order_change cfg oc s")
  have "gameHistoricalData s1 = gameHistoricalData s"
    using store_handle_order_change [of cfg oc s] eq by simp
  then show ?case
    using eq Cons [of s1] by (cases t) simp_all
qed

lemma store_subscribeToOpenMarkets:
  "gameHistoricalData (subscribeToOpenMarkets s) = gameHistoricalData s"
  using subscription_loop_outbox [of 0 "openMarketIds_of s" s]
  by (simp add: subscribeToOpenMarkets_def Let_def)

lemma odds_inv_handleStreamMessage:
  assumes "odds_inv s"
  shows "odds_inv (handleStreamMessage cfg m s)"
proof (cases m)
  case (Status code)
  then show ?thesis
    using assms by (simp add: handleStreamMessage_def odds_inv_def store_subscribeToOpenMarkets)
next
  case (Mcm mcs)
  have "odds_inv (fold (handle_market_change cfg) xs s)" for xs
    using assms by (rule odds_inv_fold [rotated]) (rule odds_inv_handle_market_change)
  then show ?thesis using Mcm by (simp add: handleStreamMessage_def)
next
  case (Ocm ocs)
  then show ?thesis
    using assms by (simp add: handleStreamMessage_def odds_inv_def store_handle_order_changes)
next
  case OtherMessage
  then show ?thesis using assms by (simp add: handleStreamMessage_def)
qed

lemma odds_inv_on_frame: "odds_inv s \<Longrightarrow> odds_inv (on_frame parse cfg t s)"
  by (simp add: on_frame_def odds_inv_handleStreamMessage split: option.splits)

lemma odds_inv_on_data:
  assumes "odds_inv s"
  shows "odds_inv (on_data parse cfg c s)"
proof -
  have "odds_inv (fold (on_frame parse cfg) fs s)" for fs
    using assms by (rule odds_inv_fold [rotated]) (rule odds_inv_on_frame)
  then show ?thesis by (simp add: on_data_frames_of odds_inv_def)
qed

lemma odds_inv_resume:
  assumes "odds_inv s"
  shows "odds_inv (resume cfg c r s)"
proof -
  have tail: "odds_inv t \<Longrightarrow> odds_inv (placeBet_tail b t)" for t b
    by (simp add: placeBet_tail_def Let_def odds_inv_def)
  have upd: "store_ok (AList.map_entry mid (\<lambda>g. g\<lparr>bet := x\<rparr>) (gameHistoricalData s))" for mid x
    using assms by (simp add: odds_inv_def store_ok_same_odds)
  show ?thesis
  proof (cases c)
    case (AwaitPlace mid sel price betSize betPrice ev isTestBet)
    show ?thesis
    proof (cases r)
      case PlaceFailed
      then show ?thesis using AwaitPlace assms by simp
    next
      case (PlaceOk betId)
      then show ?thesis
        using AwaitPlace assms
        by (auto simp: Let_def odds_inv_def upd placeBet_tail_def split: option.splits)
    next
      case (EditReply ok)
      then show ?thesis using AwaitPlace assms by simp
    qed
  next
    case (AwaitEdit mid betId newSize price isTestBet)
    show ?thesis
    proof (cases r)
      case PlaceFailed
      then show ?thesis using AwaitEdit assms by simp
    next
      case (PlaceOk betId)
      then show ?thesis using AwaitEdit assms by simp
    next
      case (EditReply ok)
      then show ?thesis
        using AwaitEdit assms
        by (auto simp: Let_def odds_inv_def upd placeBet_tail_def split: option.splits)
    qed
  qed
qed

lemma odds_inv_gateway_answers: "odds_inv s \<Longrightarrow> odds_inv (gateway_answers cfg i r s)"
proof -
  assume a: "odds_inv s"
  have "odds_inv (s\<lparr>suspended_calls := cs\<rparr>)" for cs
    using a by (simp add: odds_inv_def)
  then show ?thesis
    by (simp add: gateway_answers_def a odds_inv_resume)
qed

lemma odds_inv_step: "odds_inv s \<Longrightarrow> odds_inv (step parse cfg e s)"
  by (cases e)
     (simp_all add: odds_inv_on_data odds_inv_gateway_answers,
      simp_all add: odds_inv_def connectStreamAPI_def on_connect_def on_error_def on_close_def)

lemma odds_inv_run: "odds_inv s \<Longrightarrow> odds_inv (run parse cfg es s)"
  unfolding run_def by (rule odds_inv_fold) (rule odds_inv_step)

lemma odds_inv_runBot: "odds_inv (runBot ms)"
proof -
  have "odds_inv s \<Longrightarrow> odds_inv (fold track_market xs s)" for xs s
    by (rule odds_inv_fold)
       (simp add: track_market_def Let_def odds_inv_def store_ok_def game_odds_ok_def
          valid_odds_def split: list.splits)
  moreover have "odds_inv initial_state"
    by (simp add: initial_state_def odds_inv_def store_ok_def)
  ultimately show ?thesis
    by (simp add: runBot_def connectStreamAPI_def odds_inv_def)
qed

lemma update_runner_odds_noop:
  "\<not> (\<exists>x. batb r = JNumber x \<and> jlt (Fin 1) x) \<Longrightarrow> update_runner_odds mid r s = s"
  by (auto simp: update_runner_odds_def dest: above_one split: option.splits jsval.splits)

lemma update_runner_odds_write:
  assumes "lookup_game mid s = Some g" and "batb r = JNumber x" and "jlt (Fin 1) x"
  shows "lookup_game mid (update_runner_odds mid r s) =
     Some (if rc_id r = selectionIdA g then g\<lparr>currentOdds := (currentOdds g)\<lparr>pA := Some x\<rparr>\<rparr>
           else if rc_id r = selectionIdB g then g\<lparr>currentOdds := (currentOdds g)\<lparr>pB := Some x\<rparr>\<rparr>
           else g)"
  using assms not_above_one [OF assms(3)]
  by (simp add: update_runner_odds_def)

text \<open>
  C7, as the code has it. After any sequence of events, each stored \<open>pA\<close> and \<open>pB\<close> is
  unset or a number strictly greater than 1; the number may be \<^verbatim>\<open>Infinity\<close>, which the
  tests of the handler let through. A runner whose best back price is not a number
  greater than 1 (not numeric, NaN, zero, at most 1) leaves the whole state as it was. A
  price that is a number greater than 1 is written to \<open>pA\<close> when the runner is the
  market's first selection, else to \<open>pB\<close> when it is the second, else nowhere.
\<close>

theorem odds_validity:
  "odds_inv (run parse cfg events (runBot ms))
   \<and> (\<not> (\<exists>x. batb r = JNumber x \<and> jlt (Fin 1) x) \<longrightarrow> update_runner_odds mid r s = s)
   \<and> (lookup_game mid s = Some g \<and> batb r = JNumber x \<and> jlt (Fin 1) x \<longrightarrow>
        lookup_game mid (update_runner_odds mid r s) =
          Some (if rc_id r = selectionIdA g
                then g\<lparr>currentOdds := (currentOdds g)\<lparr>pA := Some x\<rparr>\<rparr>
                else if rc_id r = selectionIdB g
                then g\<lparr>currentOdds := (currentOdds g)\<lparr>pB := Some x\<rparr>\<rparr>
                else g))"
proof -
  have inv: "odds_inv (run parse cfg events (runBot ms))"
    by (rule odds_inv_run [OF odds_inv_runBot])
  have noop: "update_runner_odds mid r s = s" if "\<not> (\<exists>x. batb r = JNumber x \<and> jlt (Fin 1) x)"
    using that by (rule update_runner_odds_noop)
  have wr: "lookup_game mid (update_runner_odds mid r s) =
          Some (if rc_id r = selectionIdA g
                then g\<lparr>currentOdds := (currentOdds g)\<lparr>pA := Some x\<rparr>\<rparr>
                else if rc_id r = selectionIdB g
                then g\<lparr>currentOdds := (currentOdds g)\<lparr>pB := Some x\<rparr>\<rparr>
                else g)"
    if "lookup_game mid s = Some g" and "batb r = JNumber x" and "jlt (Fin 1) x"
    using that by (rule update_runner_odds_write)
  show ?thesis
    using inv noop wr by blast
qed

theorem odds_validity_witness:
  "odds_inv (run (parse_only [0x61]) bot_config [Connected, Data [0x61, 0x0D, 0x0A]]
      (runBot demo_markets))
   \<and> update_runner_odds ''1.1'' \<lparr>rc_id = 11, batb = JNumber (Fin 1)\<rparr> (runBot demo_markets)
      = runBot demo_markets
   \<and> update_runner_odds ''1.1'' \<lparr>rc_id = 11, batb = JString ''2.5''\<rparr> (runBot demo_markets)
      = runBot demo_markets
   \<and> map_option currentOdds (lookup_game ''1.1''
        (update_runner_odds ''1.1'' \<lparr>rc_id = 12, batb = JNumber (Fin (5 / 2))\<rparr> (runBot demo_markets)))
      = Some \<lparr>pA = None, pB = Some (Fin (5 / 2))\<rparr>"
proof -
  let ?s = "runBot demo_markets"
  let ?g = "the (lookup_game ''1.1'' ?s)"
  let ?p = "parse_only [0x61]"
  let ?es = "[Connected, Data [0x61, 0x0D, 0x0A]]"
  have n1: "\<not> (\<exists>x. batb \<lparr>rc_id = 11, batb = JNumber (Fin 1)\<rparr> = JNumber x \<and> jlt (Fin 1) x)"
    by simp
  have n2: "\<not> (\<exists>x. batb \<lparr>rc_id = 11, batb = JString ''2.5''\<rparr> = JNumber x \<and> jlt (Fin 1) x)"
    by simp
  have g: "lookup_game ''1.1'' ?s = Some ?g" by code_simp
  have v: "batb \<lparr>rc_id = 12, batb = JNumber (Fin (5 / 2))\<rparr> = JNumber (Fin (5 / 2))
           \<and> jlt (Fin 1) (Fin (5 / 2))"
    by simp
  have ga: "selectionIdA ?g = 11" and gb: "selectionIdB ?g = 12"
    and go: "currentOdds ?g = \<lparr>pA = None, pB = None\<rparr>"
    by code_simp+
  have c1: "odds_inv (run ?p bot_config ?es ?s)"
    using odds_validity [of ?p bot_config ?es demo_markets] by blast
  have c2: "update_runner_odds ''1.1'' \<lparr>rc_id = 11, batb = JNumber (Fin 1)\<rparr> ?s = ?s"
    using odds_validity [of ?p bot_config ?es demo_markets
        "\<lparr>rc_id = 11, batb = JNumber (Fin 1)\<rparr>" "''1.1''" ?s] n1 by blast
  have c3: "update_runner_odds ''1.1'' \<lparr>rc_id = 11, batb = JString ''2.5''\<rparr> ?s = ?s"
    using odds_validity [of ?p bot_config ?es demo_markets
        "\<lparr>rc_id = 11, batb = JString ''2.5''\<rparr>" "''1.1''" ?s] n2 by blast
  have c4: "lookup_game ''1.1''
        (update_runner_odds ''1.1'' \<lparr>rc_id = 12, batb = JNumber (Fin (5 / 2))\<rparr> ?s)
      = Some (?g\<lparr>currentOdds := (currentOdds ?g)\<lparr>pB := Some (Fin (5 / 2))\<rparr>\<rparr>)"
    using odds_validity [of ?p bot_config ?es demo_markets
        "\<lparr>rc_id = 12, batb = JNumber (Fin (5 / 2))\<rparr>" "''1.1''" ?s ?g "Fin (5 / 2)"] g v ga gb
    by simp
  show ?thesis
    using c1 c2 c3 by (simp add: c4 go)
qed

text \<open>C7 as stated asks for finite numbers. The price \<^verbatim>\<open>Infinity\<close> (the JSON literal
  \<^verbatim>\<open>1e999\<close>) is a number, is not NaN, is not 0 and is not at most 1: it is stored.\<close>

theorem infinite_odds_stored:
  "map_option (\<lambda>g. pA (currentOdds g))
     (lookup_game ''1.1''
        (handleStreamMessage bot_config (Mcm (Some [odds_delta ''1.1'' 11 (JNumber PInf)]))
           (runBot demo_markets))) = Some (Some PInf)"
  by code_simp

section \<open>After the closure\<close>

lemma map_entry_None: "map_of gs k = None \<Longrightarrow> map_of (AList.map_entry m f gs) k = None"
  by (auto simp: map_of_map_entry)

lemma other_handle_market_change:
  "k \<noteq> mc_id mc \<Longrightarrow> lookup_game k (handle_market_change cfg mc s) = lookup_game k s"
  by (simp add: handle_market_change_def Let_def split: option.splits)

lemma untracked_handle_market_change_noop:
  "lookup_game (mc_id mc) s = None \<Longrightarrow> handle_market_change cfg mc s = s"
  by (simp add: handle_market_change_def)

lemma untracked_handle_market_change:
  assumes "lookup_game k s = None"
  shows "lookup_game k (handle_market_change cfg mc s) = None"
proof (cases "k = mc_id mc")
  case True
  then show ?thesis using assms by (simp add: untracked_handle_market_change_noop)
next
  case False
  then show ?thesis using assms by (simp add: other_handle_market_change)
qed

lemma untracked_fold:
  assumes "\<And>x s. lookup_game k s = None \<Longrightarrow> lookup_game k (f x s) = None"
  shows "lookup_game k s = None \<Longrightarrow> lookup_game k (fold f xs s) = None"
  by (induction xs arbitrary: s) (simp_all add: assms)

lemma untracked_handleStreamMessage:
  assumes "lookup_game k s = None"
  shows "lookup_game k (handleStreamMessage cfg m s) = None"
proof (cases m)
  case (Status code)
  then show ?thesis
    using assms by (simp add: handleStreamMessage_def store_subscribeToOpenMarkets)
next
  case (Mcm mcs)
  have "lookup_game k (fold (handle_market_change cfg) xs s) = None" for xs
    using assms by (rule untracked_fold [rotated]) (rule untracked_handle_market_change)
  then show ?thesis using Mcm by (simp add: handleStreamMessage_def)
next
  case (Ocm ocs)
  then show ?thesis
    using assms by (simp add: handleStreamMessage_def store_handle_order_changes)
next
  case OtherMessage
  then show ?thesis using assms by (simp add: handleStreamMessage_def)
qed

lemma untracked_on_frame:
  "lookup_game k s = None \<Longrightarrow> lookup_game k (on_frame parse cfg t s) = None"
  by (simp add: on_frame_def untracked_handleStreamMessage split: option.splits)

lemma untracked_on_data:
  assumes "lookup_game k s = None"
  shows "lookup_game k (on_data parse cfg c s) = None"
proof -
  have "lookup_game k (fold (on_frame parse cfg) fs s) = None" for fs
    using assms by (rule untracked_fold [rotated]) (rule untracked_on_frame)
  then show ?thesis by (simp add: on_data_frames_of)
qed

lemma untracked_resume:
  assumes "lookup_game k s = None"
  shows "lookup_game k (resume cfg c r s) = None"
proof (cases c)
  case (AwaitPlace mid sel price betSize betPrice ev isTestBet)
  show ?thesis
  proof (cases r)
    case PlaceFailed
    then show ?thesis using AwaitPlace assms by simp
  next
    case (PlaceOk betId)
    then show ?thesis
      using AwaitPlace assms
      by (auto simp: Let_def placeBet_tail_def map_entry_None split: option.splits)
  next
    case (EditReply ok)
    then show ?thesis using AwaitPlace assms by simp
  qed
next
  case (AwaitEdit mid betId newSize price isTestBet)
  show ?thesis
  proof (cases r)
    case PlaceFailed
    then show ?thesis using AwaitEdit assms by simp
  next
    case (PlaceOk betId)
    then show ?thesis using AwaitEdit assms by simp
  next
    case (EditReply ok)
    then show ?thesis
      using AwaitEdit assms
      by (auto simp: Let_def placeBet_tail_def map_entry_None split: option.splits)
  qed
qed

lemma untracked_gateway_answers:
  "lookup_game k s = None \<Longrightarrow> lookup_game k (gateway_answers cfg i r s) = None"
  by (simp add: gateway_answers_def untracked_resume)

lemma untracked_step:
  "lookup_game k s = None \<Longrightarrow> lookup_game k (step parse cfg e s) = None"
  by (cases e)
     (simp_all add: untracked_on_data untracked_gateway_answers connectStreamAPI_def
        on_connect_def on_error_def on_close_def)

lemma untracked_run:
  "lookup_game k s = None \<Longrightarrow> lookup_game k (run parse cfg es s) = None"
  unfolding run_def by (rule untracked_fold) (rule untracked_step)

lemma closed_untracks:
  assumes "lookup_game (mc_id mc) s = Some g0" and "isOpen g0"
    and "marketDefinition mc = Some md" and "md_status md = Some ''CLOSED''"
    and "testBetEnabled cfg \<or> \<not> md_inPlay md \<or> md_score md \<noteq> None"
  shows "lookup_game (mc_id mc) (handle_market_change cfg mc s) = None
       \<and> orderIds (handle_market_change cfg mc s) (mc_id mc) = None"
proof -
  let ?s1 = "score_phase cfg mc (mc_id mc) (odds_phase cfg mc (mc_id mc) (md_inPlay md) s)"
  obtain g where g: "lookup_game (mc_id mc) ?s1 = Some g"
    using tracked_after_phases [OF assms(1)] by blast
  show ?thesis
    unfolding handle_closed_eq [OF assms refl g]
    by (simp add: delete_conv' split: prod.splits)
qed

lemma untracked_mcm_noop:
  assumes "lookup_game mid s = None" and "\<forall>mc\<in>set mcs. mc_id mc = mid"
  shows "fold (handle_market_change cfg) mcs s = s"
  using assms by (induction mcs) (simp_all add: untracked_handle_market_change_noop)

lemma untracked_ocm_noop:
  assumes "lookup_game mid s = None" and "\<forall>oc\<in>set ocs. oc_marketId oc = mid"
  shows "handle_order_changes cfg ocs s = (s, False)"
  using assms by (induction ocs) (simp_all add: handle_order_change_def)

text \<open>
  C9. Once a delta with status \<^verbatim>\<open>CLOSED\<close> has been processed for a tracked open market
  (its status set to \<open>ENDED\<close>, \<open>isOpen\<close> to false, the market and its order identifier
  deleted), the market is in the store after no sequence of events, and a market-change or
  order-change message all of whose entries name that market leaves the state exactly as
  it is: no settlement, no change of balance or multiplier, no odds update, no log record.
  In any message, an entry for a market that is not in the store changes nothing.
\<close>

theorem settlement_idempotent:
  "(lookup_game (mc_id mc) s = Some g0 \<and> isOpen g0
      \<and> marketDefinition mc = Some md \<and> md_status md = Some ''CLOSED''
      \<and> (testBetEnabled cfg \<or> \<not> md_inPlay md \<or> md_score md \<noteq> None)
     \<longrightarrow> lookup_game (mc_id mc) (run parse cfg events (handle_market_change cfg mc s)) = None
       \<and> ((\<forall>d\<in>set mcs. mc_id d = mc_id mc) \<longrightarrow>
            handleStreamMessage cfg (Mcm (Some mcs))
              (run parse cfg events (handle_market_change cfg mc s))
            = run parse cfg events (handle_market_change cfg mc s))
       \<and> ((\<forall>c\<in>set ocs. oc_marketId c = mc_id mc) \<longrightarrow>
            handleStreamMessage cfg (Ocm (Some ocs))
              (run parse cfg events (handle_market_change cfg mc s))
            = run parse cfg events (handle_market_change cfg mc s)))
   \<and> (lookup_game (mc_id d1) t = None \<longrightarrow> handle_market_change cfg d1 t = t)
   \<and> (lookup_game (oc_marketId c1) t = None \<longrightarrow> handle_order_change cfg c1 t = (t, False))"
proof -
  have after: "lookup_game (mc_id mc) (run parse cfg events (handle_market_change cfg mc s)) = None
       \<and> ((\<forall>d\<in>set mcs. mc_id d = mc_id mc) \<longrightarrow>
            handleStreamMessage cfg (Mcm (Some mcs))
              (run parse cfg events (handle_market_change cfg mc s))
            = run parse cfg events (handle_market_change cfg mc s))
       \<and> ((\<forall>c\<in>set ocs. oc_marketId c = mc_id mc) \<longrightarrow>
            handleStreamMessage cfg (Ocm (Some ocs))
              (run parse cfg events (handle_market_change cfg mc s))
            = run parse cfg events (handle_market_change cfg mc s))"
    if "lookup_game (mc_id mc) s = Some g0" and "isOpen g0"
      and "marketDefinition mc = Some md" and "md_status md = Some ''CLOSED''"
      and "testBetEnabled cfg \<or> \<not> md_inPlay md \<or> md_score md \<noteq> None"
  proof -
    let ?t = "run parse cfg events (handle_market_change cfg mc s)"
    have "lookup_game (mc_id mc) (handle_market_change cfg mc s) = None"
      using closed_untracks [OF that] by blast
    then have gone: "lookup_game (mc_id mc) ?t = None"
      by (rule untracked_run)
    have m: "handleStreamMessage cfg (Mcm (Some mcs)) ?t = ?t"
      if "\<forall>d\<in>set mcs. mc_id d = mc_id mc"
      using untracked_mcm_noop [OF gone that] by (simp add: handleStreamMessage_def)
    have c: "handleStreamMessage cfg (Ocm (Some ocs)) ?t = ?t"
      if "\<forall>c\<in>set ocs. oc_marketId c = mc_id mc"
      using untracked_ocm_noop [OF gone that] by (simp add: handleStreamMessage_def)
    show ?thesis using gone m c by blast
  qed
  have one: "handle_market_change cfg d1 t = t" if "lookup_game (mc_id d1) t = None"
    using that by (rule untracked_handle_market_change_noop)
  have two: "handle_order_change cfg c1 t = (t, False)" if "lookup_game (oc_marketId c1) t = None"
    using that by (simp add: handle_order_change_def)
  show ?thesis
    using after one two by blast
qed

theorem settlement_idempotent_witness:
  "lookup_game ''1.1'' demo_bet_on_first \<noteq> None
   \<and> lookup_game ''1.1''
        (run (parse_only [0x61]) bot_config [Reconnect]
           (handle_market_change bot_config
              (closed_delta ''1.1'' (Some [\<lparr>rd_id = 11, rd_status = ''WINNER''\<rparr>])) demo_bet_on_first))
      = None
   \<and> handleStreamMessage bot_config
        (Mcm (Some [closed_delta ''1.1'' (Some [\<lparr>rd_id = 12, rd_status = ''WINNER''\<rparr>]),
                    odds_delta ''1.1'' 11 (JNumber (Fin 2))]))
        (run (parse_only [0x61]) bot_config [Reconnect]
           (handle_market_change bot_config
              (closed_delta ''1.1'' (Some [\<lparr>rd_id = 11, rd_status = ''WINNER''\<rparr>])) demo_bet_on_first))
      = run (parse_only [0x61]) bot_config [Reconnect]
           (handle_market_change bot_config
              (closed_delta ''1.1'' (Some [\<lparr>rd_id = 11, rd_status = ''WINNER''\<rparr>])) demo_bet_on_first)
   \<and> handleStreamMessage bot_config (Ocm (Some [order_complete ''1.1'' ''sim_1.1'' 5]))
        (run (parse_only [0x61]) bot_config [Reconnect]
           (handle_market_change bot_config
              (closed_delta ''1.1'' (Some [\<lparr>rd_id = 11, rd_status = ''WINNER''\<rparr>])) demo_bet_on_first))
      = run (parse_only [0x61]) bot_config [Reconnect]
           (handle_market_change bot_config
              (closed_delta ''1.1'' (Some [\<lparr>rd_id = 11, rd_status = ''WINNER''\<rparr>])) demo_bet_on_first)
   \<and> handle_market_change bot_config (odds_delta ''9.9'' 11 (JNumber (Fin 2))) demo_bet_on_first
      = demo_bet_on_first
   \<and> handle_order_change bot_config (order_complete ''9.9'' ''b'' 5) demo_bet_on_first
      = (demo_bet_on_first, False)"
proof -
  let ?s = demo_bet_on_first
  let ?rs = "Some [\<lparr>rd_id = 11, rd_status = ''WINNER''\<rparr>]"
  let ?mc = "closed_delta ''1.1'' ?rs"
  let ?md = "\<lparr>md_inPlay = False, md_status = Some ''CLOSED'', md_score = None, md_runners = ?rs\<rparr>"
  let ?g = "the (lookup_game ''1.1'' ?s)"
  let ?mcs = "[closed_delta ''1.1'' (Some [\<lparr>rd_id = 12, rd_status = ''WINNER''\<rparr>]),
               odds_delta ''1.1'' 11 (JNumber (Fin 2))]"
  let ?ocs = "[order_complete ''1.1'' ''sim_1.1'' 5]"
  have id: "mc_id ?mc = ''1.1''" by (simp add: closed_delta_def)
  have a: "lookup_game (mc_id ?mc) ?s = Some ?g" unfolding id by code_simp
  have b: "isOpen ?g" by code_simp
  have c: "marketDefinition ?mc = Some ?md" by (simp add: closed_delta_def)
  have d: "md_status ?md = Some ''CLOSED''" by simp
  have e: "testBetEnabled bot_config \<or> \<not> md_inPlay ?md \<or> md_score ?md \<noteq> None" by simp
  have f: "\<forall>d\<in>set ?mcs. mc_id d = mc_id ?mc"
    by (simp add: closed_delta_def odds_delta_def)
  have g: "\<forall>c\<in>set ?ocs. oc_marketId c = mc_id ?mc"
    by (simp add: closed_delta_def order_complete_def)
  have h: "lookup_game (mc_id (odds_delta ''9.9'' 11 (JNumber (Fin 2)))) ?s = None"
    unfolding odds_delta_def market_change.simps by code_simp
  have k: "lookup_game (oc_marketId (order_complete ''9.9'' ''b'' 5)) ?s = None"
    unfolding order_complete_def order_change.simps by code_simp
  have tracked: "lookup_game ''1.1'' ?s \<noteq> None" by code_simp
  note inst = settlement_idempotent [where mc = ?mc and s = ?s and ?g0.0 = ?g and md = ?md
      and cfg = bot_config and parse = "parse_only [0x61]" and events = "[Reconnect]"
      and mcs = ?mcs and ocs = ?ocs and ?d1.0 = "odds_delta ''9.9'' 11 (JNumber (Fin 2))"
      and t = ?s and ?c1.0 = "order_complete ''9.9'' ''b'' 5"]
  show ?thesis
    using inst a b c d e f g h k tracked unfolding id by blast
qed

section \<open>The staking condition\<close>

lemma stepped_refl [simp]: "stepped s s [] []"
  by (simp add: stepped_def)

lemma stepped_trans:
  "stepped s t ys zs \<Longrightarrow> stepped t u ys' zs' \<Longrightarrow> stepped s u (ys @ ys') (zs @ zs')"
  by (simp add: stepped_def)

lemma stepped_placements:
  "stepped s s' ys zs \<Longrightarrow>
   placements cfg s s' = (if enableSimulation cfg then concat (map placed_of_record ys)
                          else concat (map placed_of_call zs))"
  by (simp add: stepped_def placements_def)

lemma update_runner_odds_fields [simp]:
  "ndjson (update_runner_odds mid r s) = ndjson s"
  "suspended_calls (update_runner_odds mid r s) = suspended_calls s"
  "hasOpenBet (update_runner_odds mid r s) = hasOpenBet s"
  by (simp_all add: update_runner_odds_def split: option.splits jsval.splits)

lemma fold_update_runner_odds_fields [simp]:
  "ndjson (fold (update_runner_odds mid) rs s) = ndjson s"
  "suspended_calls (fold (update_runner_odds mid) rs s) = suspended_calls s"
  "hasOpenBet (fold (update_runner_odds mid) rs s) = hasOpenBet s"
  by (induction rs arbitrary: s) simp_all

lemma adds_no_bet_store [simp]: "adds_no_bet s (s\<lparr>gameHistoricalData := gs\<rparr>)"
  unfolding adds_no_bet_def by (intro exI [of _ "[]"]) (simp add: stepped_def)

lemma adds_no_bet_refl [simp]: "adds_no_bet s s"
  unfolding adds_no_bet_def by (intro exI [of _ "[]"]) simp

lemma adds_no_bet_trans: "adds_no_bet s t \<Longrightarrow> adds_no_bet t u \<Longrightarrow> adds_no_bet s u"
  unfolding adds_no_bet_def stepped_def by (elim exE conjE) (rule_tac x = "ys @ ysa" in exI, simp)

lemma odds_phase_without_test:
  assumes "\<not> testBetEnabled cfg"
  shows "adds_no_bet s (odds_phase cfg mc mid p s)
           \<and> hasOpenBet (odds_phase cfg mc mid p s) = hasOpenBet s"
proof -
  let ?t = "fold (update_runner_odds mid) (the (rc mc)) s"
  have same: "odds_phase cfg mc mid p s = s
      \<or> odds_phase cfg mc mid p s = ?t
      \<or> (\<exists>ev a b. odds_phase cfg mc mid p s = ?t\<lparr>ndjson := ndjson ?t @ [(ev, OddsUpdate a b)]\<rparr>)"
    using assms
    by (auto simp: odds_phase_def Let_def test_bet_trigger_def split: option.splits)
  then consider "odds_phase cfg mc mid p s = s" | "odds_phase cfg mc mid p s = ?t"
    | ev a b where "odds_phase cfg mc mid p s = ?t\<lparr>ndjson := ndjson ?t @ [(ev, OddsUpdate a b)]\<rparr>"
    by blast
  then show ?thesis
  proof cases
    case 1
    then show ?thesis by simp
  next
    case 2
    then show ?thesis
      unfolding adds_no_bet_def by (intro conjI exI [of _ "[]"]) (simp_all add: stepped_def)
  next
    case 3
    then show ?thesis
      unfolding adds_no_bet_def
      by (intro conjI exI [of _ "[(ev, OddsUpdate a b)]"]) (simp_all add: stepped_def)
  qed
qed

lemma settle_closed_adds_no_bet:
  assumes "settle_closed cfg md mid g s = (pnl, oc, t)"
  shows "adds_no_bet s t"
proof -
  have sc: "suspended_calls t = suspended_calls s"
    using assms unfolding settle_closed_def Let_def
    by (auto split: option.splits if_splits)
  have "ndjson t = ndjson s \<or> (\<exists>ev m sel w q. ndjson t = ndjson s @ [(ev, BetOutcome m mid sel w q)])"
    using assms unfolding settle_closed_def Let_def
    by (auto split: option.splits if_splits)
  then consider "ndjson t = ndjson s"
    | ev m sel w q where "ndjson t = ndjson s @ [(ev, BetOutcome m mid sel w q)]"
    by blast
  then show ?thesis
  proof cases
    case 1
    then show ?thesis
      unfolding adds_no_bet_def by (intro exI [of _ "[]"]) (simp add: stepped_def sc)
  next
    case 2
    then show ?thesis
      unfolding adds_no_bet_def
      by (intro exI [of _ "[(ev, BetOutcome m mid sel w q)]"]) (simp add: stepped_def sc)
  qed
qed

lemma status_phase_adds_no_bet: "adds_no_bet s (status_phase cfg mc mid s)"
proof -
  have a: "adds_no_bet s (t\<lparr>ndjson := ndjson t @ [(ev, MarketClosed oc pnl)], orderIds := oi,
              gameHistoricalData := gs', hasOpenBet := False, testBetPlaced := False\<rparr>)"
    if h: "settle_closed cfg md mid g (s\<lparr>gameHistoricalData := gs\<rparr>) = (pnl, oc, t)"
    for md g gs pnl oc t ev oi gs'
  proof -
    have "adds_no_bet s t"
      by (rule adds_no_bet_trans [OF adds_no_bet_store settle_closed_adds_no_bet [OF h]])
    then obtain ys where "stepped s t ys []" and "concat (map placed_of_record ys) = []"
      unfolding adds_no_bet_def by blast
    then show ?thesis
      unfolding adds_no_bet_def
      by (intro exI [of _ "ys @ [(ev, MarketClosed oc pnl)]"]) (simp add: stepped_def)
  qed
  show ?thesis
    by (auto simp: status_phase_def Let_def split: option.splits prod.splits intro!: a)
qed

lemma placeBet_stepped:
  assumes "lookup_game mid s = Some g"
  shows "\<exists>ys zs. stepped s (placeBet cfg mid sel v t s) ys zs
           \<and> (if enableSimulation cfg then concat (map placed_of_record ys)
               else concat (map placed_of_call zs)) = [(mid, sel, v)]"
proof (cases "enableSimulation cfg")
  case True
  then show ?thesis
    using assms
    by (intro exI [of _ "[(event_key g mid, BetPlaced Simulated mid sel (bet_size_for cfg s) v None t)]"]
          exI [of _ "[]"])
       (simp add: placeBet_def Let_def stepped_def)
next
  case False
  then show ?thesis
    using assms
    by (intro exI [of _ "[]"]
          exI [of _ "[AwaitPlace mid sel v (bet_size_for cfg s)
                        (if useImpossibleOdds cfg then Fin 1000 else v) (event_key g mid) t]"])
       (simp add: placeBet_def Let_def stepped_def)
qed

lemma first_set_ended_stepped:
  assumes "lookup_game mid s = Some g'"
    and "home = or_zero (homeScore set1)" and "away = or_zero (awayScore set1)"
    and "underdogOdds = (if jlt away home then pB (currentOdds g) else pA (currentOdds g))"
    and "underdog = (if jlt away home then selectionIdB g else selectionIdA g)"
  shows "\<exists>ys zs. stepped s (first_set_ended cfg mid g set1 s) ys zs
           \<and> (if enableSimulation cfg then concat (map placed_of_record ys)
               else concat (map placed_of_call zs))
             = (case underdogOdds of
                  None \<Rightarrow> []
                | Some v \<Rightarrow>
                    if jle (jabs (jsub home away)) (Fin 2) \<and> jle (Fin 2) v \<and> \<not> hasOpenBet s
                    then [(mid, underdog, v)] else [])"
proof -
  let ?s3 = "s\<lparr>gameHistoricalData := AList.map_entry mid (\<lambda>g. g\<lparr>hasFirstSetEnded := True\<rparr>)
                 (gameHistoricalData s),
               totalSetsCompleted := totalSetsCompleted s + 1,
               totalConditionsMet := totalConditionsMet s + 1\<rparr>"
  let ?go = "jle (jabs (jsub home away)) (Fin 2) \<and> at_least_two underdogOdds \<and> \<not> hasOpenBet s"
  show ?thesis
  proof (cases ?go)
    case True
    then obtain v where v: "underdogOdds = Some v" and v2: "jle (Fin 2) v"
      by (auto simp: at_least_two_def split: option.splits)
    have g3: "lookup_game mid ?s3 = Some (g'\<lparr>hasFirstSetEnded := True\<rparr>)"
      using assms(1) by simp
    obtain ys zs where st: "stepped ?s3 (placeBet cfg mid underdog v False ?s3) ys zs"
      and pl: "(if enableSimulation cfg then concat (map placed_of_record ys)
               else concat (map placed_of_call zs)) = [(mid, underdog, v)]"
      using placeBet_stepped [OF g3] by blast
    have eq: "first_set_ended cfg mid g set1 s =
        (placeBet cfg mid underdog v False ?s3)
          \<lparr>totalBetsPlaced := totalBetsPlaced (placeBet cfg mid underdog v False ?s3) + 1\<rparr>"
      using True v assms(2-5) by (simp add: first_set_ended_def Let_def)
    have "stepped s (first_set_ended cfg mid g set1 s) ys zs"
      unfolding eq using st by (simp add: stepped_def)
    then show ?thesis
      using pl True v v2 by (intro exI [of _ ys] exI [of _ zs]) simp
  next
    case False
    have "ndjson (first_set_ended cfg mid g set1 s) = ndjson s
        \<and> suspended_calls (first_set_ended cfg mid g set1 s) = suspended_calls s"
      using False assms(2-5)
      by (auto simp: first_set_ended_def Let_def at_least_two_def split: option.splits)
    then have "stepped s (first_set_ended cfg mid g set1 s) [] []"
      by (simp add: stepped_def)
    then show ?thesis
      using False
      by (intro exI [of _ "[]"]) (auto simp: at_least_two_def split: option.splits)
  qed
qed

text \<open>
  C4, as the code has it. Outside test mode, when a delta for a tracked open market reports
  the first set completed and the latch is not yet set: with the games of that set (a
  missing count is 0), the odds and selection of the side with fewer games (the first side
  when the games are level) as stored after the prices of the same delta, exactly one bet
  is placed, on that selection at those odds, if the difference of the games is at most 2,
  the odds are a number at least 2, and the \<open>hasOpenBet\<close> flag is false; otherwise none.
\<close>

theorem staking_condition:
  assumes "\<not> testBetEnabled cfg"
    and "lookup_game (mc_id mc) s = Some g0" and "isOpen g0"
    and "marketDefinition mc = Some md" and "md_score md = Some sc"
    and "score_sets sc = Some (set1 # rest)" and "completed set1"
    and "lookup_game (mc_id mc) (odds_phase cfg mc (mc_id mc) (md_inPlay md) s) = Some g"
    and "\<not> hasFirstSetEnded g"
    and "home = or_zero (homeScore set1)" and "away = or_zero (awayScore set1)"
    and "underdogOdds = (if jlt away home then pB (currentOdds g) else pA (currentOdds g))"
    and "underdog = (if jlt away home then selectionIdB g else selectionIdA g)"
  shows "placements cfg s (handle_market_change cfg mc s) =
           (case underdogOdds of
              None \<Rightarrow> []
            | Some v \<Rightarrow>
                if jle (jabs (jsub home away)) (Fin 2) \<and> jle (Fin 2) v \<and> \<not> hasOpenBet s
                then [(mc_id mc, underdog, v)] else [])"
proof -
  let ?mid = "mc_id mc"
  let ?s1 = "odds_phase cfg mc ?mid (md_inPlay md) s"
  let ?g1 = "g\<lparr>sets := set1 # rest\<rparr>"
  let ?s1' = "?s1\<lparr>gameHistoricalData := AList.map_entry ?mid (\<lambda>g. g\<lparr>sets := set1 # rest\<rparr>)
                  (gameHistoricalData ?s1)\<rparr>"
  let ?s2 = "first_set_ended cfg ?mid ?g1 set1 ?s1'"
  let ?s3 = "status_phase cfg mc ?mid ?s2"
  let ?rhs = "case underdogOdds of
              None \<Rightarrow> []
            | Some v \<Rightarrow>
                if jle (jabs (jsub home away)) (Fin 2) \<and> jle (Fin 2) v \<and> \<not> hasOpenBet s
                then [(mc_id mc, underdog, v)] else []"
  have score: "score_phase cfg mc ?mid ?s1 = ?s2"
    using assms(1,4-9) by (simp add: score_phase_def Let_def)
  have whole: "handle_market_change cfg mc s = ?s3"
    using assms(1-5) by (simp add: handle_market_change_def Let_def score)
  have odds: "adds_no_bet s ?s1" and flag: "hasOpenBet ?s1 = hasOpenBet s"
    using odds_phase_without_test [OF assms(1), of s mc ?mid "md_inPlay md"] by simp_all
  obtain y1 where y1: "stepped s ?s1 y1 []" and p1: "concat (map placed_of_record y1) = []"
    using odds unfolding adds_no_bet_def by blast
  have "stepped ?s1 ?s1' [] []" by (simp add: stepped_def)
  then have y1': "stepped s ?s1' y1 []"
    using stepped_trans [OF y1] by fastforce
  have g1: "lookup_game ?mid ?s1' = Some ?g1"
    using assms(8) by simp
  have o1: "underdogOdds = (if jlt away home then pB (currentOdds ?g1) else pA (currentOdds ?g1))"
    and u1: "underdog = (if jlt away home then selectionIdB ?g1 else selectionIdA ?g1)"
    using assms(12,13) by simp_all
  obtain y2 z2 where y2: "stepped ?s1' ?s2 y2 z2"
    and p2: "(if enableSimulation cfg then concat (map placed_of_record y2)
               else concat (map placed_of_call z2))
             = (case underdogOdds of
                  None \<Rightarrow> []
                | Some v \<Rightarrow>
                    if jle (jabs (jsub home away)) (Fin 2) \<and> jle (Fin 2) v \<and> \<not> hasOpenBet ?s1'
                    then [(?mid, underdog, v)] else [])"
    using first_set_ended_stepped [OF g1 assms(10,11) o1 u1, of cfg] by blast
  obtain y3 where y3: "stepped ?s2 ?s3 y3 []" and p3: "concat (map placed_of_record y3) = []"
    using status_phase_adds_no_bet [of ?s2 cfg mc ?mid] unfolding adds_no_bet_def by blast
  have all: "stepped s ?s3 ((y1 @ y2) @ y3) (([] @ z2) @ [])"
    by (rule stepped_trans [OF stepped_trans [OF y1' y2] y3])
  have f': "hasOpenBet ?s1' = hasOpenBet s" using flag by simp
  have "placements cfg s ?s3 =
      (if enableSimulation cfg then concat (map placed_of_record ((y1 @ y2) @ y3))
       else concat (map placed_of_call (([] @ z2) @ [])))"
    by (rule stepped_placements [OF all])
  also have "\<dots> = (if enableSimulation cfg then concat (map placed_of_record y2)
                     else concat (map placed_of_call z2))"
    unfolding map_append concat_append p1 p3 by simp
  also have "\<dots> = ?rhs"
    using p2 unfolding f' .
  finally show ?thesis
    unfolding whole .
qed

theorem staking_condition_witness:
  "\<not> hasOpenBet (demo_priced (5 / 2))
   \<and> placements sim_config (demo_priced (5 / 2))
        (handle_market_change sim_config (score_delta ''1.1'' [first_set 6 4 True] None)
           (demo_priced (5 / 2)))
      = [(''1.1'', 12, Fin (5 / 2))]
   \<and> placements sim_config (demo_priced (5 / 2))
        (handle_market_change sim_config (score_delta ''1.1'' [first_set 6 1 True] None)
           (demo_priced (5 / 2)))
      = []
   \<and> placements sim_config (demo_priced (3 / 2))
        (handle_market_change sim_config (score_delta ''1.1'' [first_set 6 4 True] None)
           (demo_priced (3 / 2)))
      = []"
proof -
  let ?g = "\<lambda>p. the (lookup_game ''1.1'' (demo_priced p))"
  let ?mc = "\<lambda>h a. score_delta ''1.1'' [first_set h a True] None"
  let ?sc = "\<lambda>h a. \<lparr>score_sets = Some [first_set h a True]\<rparr>"
  let ?md = "\<lambda>h a. \<lparr>md_inPlay = True, md_status = Some ''OPEN'', md_score = Some (?sc h a),
                      md_runners = None\<rparr>"
  have t: "\<not> testBetEnabled sim_config" by (simp add: sim_config_def)
  have id: "mc_id (?mc h a) = ''1.1''" for h a by (simp add: score_delta_def)
  have g52: "lookup_game ''1.1'' (demo_priced (5 / 2)) = Some (?g (5 / 2))" by code_simp
  have g32: "lookup_game ''1.1'' (demo_priced (3 / 2)) = Some (?g (3 / 2))" by code_simp
  have o52: "isOpen (?g (5 / 2))" and o32: "isOpen (?g (3 / 2))" by code_simp+
  have md: "marketDefinition (?mc h a) = Some (?md h a)" for h a by (simp add: score_delta_def)
  have sc: "md_score (?md h a) = Some (?sc h a)" for h a by simp
  have ss: "score_sets (?sc h a) = Some (first_set h a True # [])" for h a by simp
  have cp: "completed (first_set h a True)" for h a by (simp add: first_set_def)
  have od: "odds_phase sim_config (?mc h a) m p s = s" for h a m p s
    by (simp add: odds_phase_def score_delta_def)
  have l52: "\<not> hasFirstSetEnded (?g (5 / 2))" and l32: "\<not> hasFirstSetEnded (?g (3 / 2))"
    by code_simp+
  have f52: "\<not> hasOpenBet (demo_priced (5 / 2))" and f32: "\<not> hasOpenBet (demo_priced (3 / 2))"
    by code_simp+
  have pb52: "pB (currentOdds (?g (5 / 2))) = Some (Fin (5 / 2))"
    and pb32: "pB (currentOdds (?g (3 / 2))) = Some (Fin (3 / 2))"
    and sb52: "selectionIdB (?g (5 / 2)) = 12"
    by code_simp+
  have h52: "lookup_game (mc_id (?mc h a)) (demo_priced (5 / 2)) = Some (?g (5 / 2))" for h a
    unfolding id by (rule g52)
  have h32: "lookup_game (mc_id (?mc h a)) (demo_priced (3 / 2)) = Some (?g (3 / 2))" for h a
    unfolding id by (rule g32)
  have k52: "lookup_game (mc_id (?mc h a))
      (odds_phase sim_config (?mc h a) (mc_id (?mc h a)) (md_inPlay (?md h a)) (demo_priced (5 / 2)))
      = Some (?g (5 / 2))" for h a
    unfolding od id by (rule g52)
  have k32: "lookup_game (mc_id (?mc h a))
      (odds_phase sim_config (?mc h a) (mc_id (?mc h a)) (md_inPlay (?md h a)) (demo_priced (3 / 2)))
      = Some (?g (3 / 2))" for h a
    unfolding od id by (rule g32)
  have hs: "or_zero (homeScore (first_set h a True)) = (if h = 0 then Fin 0 else Fin h)"
    and as: "or_zero (awayScore (first_set h a True)) = (if a = 0 then Fin 0 else Fin a)" for h a
    by (simp_all add: first_set_def or_zero_def truthy_num_def)
  have d64: "jsub (Fin 6) (Fin 4) = Fin 2" and d61: "jsub (Fin 6) (Fin 1) = Fin 5"
    by code_simp+
  have a: "placements sim_config (demo_priced (5 / 2))
        (handle_market_change sim_config (?mc 6 4) (demo_priced (5 / 2))) = [(''1.1'', 12, Fin (5 / 2))]"
    unfolding staking_condition [OF t h52 o52 md sc ss cp k52 l52 refl refl refl refl] id hs as
    using f52 pb52 sb52 by (simp add: d64 d61)
  have b: "placements sim_config (demo_priced (5 / 2))
        (handle_market_change sim_config (?mc 6 1) (demo_priced (5 / 2))) = []"
    unfolding staking_condition [OF t h52 o52 md sc ss cp k52 l52 refl refl refl refl] id hs as
    using f52 pb52 sb52 by (simp add: d64 d61)
  have c: "placements sim_config (demo_priced (3 / 2))
        (handle_market_change sim_config (?mc 6 4) (demo_priced (3 / 2))) = []"
    unfolding staking_condition [OF t h32 o32 md sc ss cp k32 l32 refl refl refl refl] id hs as
    using f32 pb32 by (simp add: d64 d61)
  show ?thesis
    using a b c f52 by blast
qed

text \<open>
  C4 as stated reads the store. With the bet of market 1.1 open in the store and the flag
  cleared by the closure of market 1.2, the first set of market 1.3 ends 6-4 at underdog
  odds 2.5: a bet is placed, although a bet is open in the store.
\<close>

theorem staking_reads_flag_not_store:
  "markets_with_bet demo_stale_flag = [''1.1'']
   \<and> \<not> hasOpenBet demo_stale_flag
   \<and> placements sim_config demo_stale_flag
        (handle_market_change sim_config (score_delta ''1.3'' [first_set 6 4 True] None)
           demo_stale_flag)
      = [(''1.3'', 32, Fin (5 / 2))]
   \<and> markets_with_bet
        (handle_market_change sim_config (score_delta ''1.3'' [first_set 6 4 True] None)
           demo_stale_flag)
      = [''1.1'', ''1.3'']"
  by code_simp

end
